theory Spec2Isabelle
  imports Main "HOL-Library.Sublist"
begin

section \<open>Paths, thrown values and asynchronous tasks\<close>

text \<open>
  A \<open>Uri\<close> of the remote store and a path of the local disk are both modelled by the
  list of their segments; the root \<open>/\<close> is the empty list. Segments are atomic names
  (no separator, not \<open>..\<close>), which is what \<open>globby\<close> and a directory listing deliver.
  \<open>Uri.joinPath(dir, '..')\<close> is \<open>parent\<close>, \<open>Uri.joinPath(dir, name)\<close> is
  \<open>joinPath\<close>, \<open>path.join(a, b)\<close> is \<open>path_join\<close>, \<open>uri.path\<close> is \<open>path_str\<close>.
\<close>

type_synonym path = "string list"

definition parent :: "path \<Rightarrow> path" where
  "parent p = butlast p"

definition joinPath :: "path \<Rightarrow> string \<Rightarrow> path" where
  "joinPath p name = p @ [name]"

definition path_join :: "path \<Rightarrow> path \<Rightarrow> path" where
  "path_join a b = a @ b"

definition path_str :: "path \<Rightarrow> string" where
  "path_str p = (if p = [] then ''/'' else concat (map (\<lambda>seg. ''/'' @ seg) p))"

text \<open>
  A value thrown by a rejected promise: its \<open>code\<close> property, its \<open>status\<close> property
  (either may be absent) and what \<open>String(error)\<close> renders.
\<close>

datatype thrown = Thrown (err_code: "string option") (err_status: "int option") (err_string: string)

definition errno :: "string \<Rightarrow> thrown" where
  "errno c = Thrown (Some c) None c"

definition type_error :: thrown where
  "type_error = Thrown None None ''TypeError''"

text \<open>
  An \<open>async\<close> method is a function from the state before to its outcome and the state
  after: \<open>Inl e\<close> is a rejection with \<open>e\<close>, \<open>Inr a\<close> a normal return of \<open>a\<close>.
  \<open>io_bind\<close> is \<open>await\<close> followed by the rest of the body, \<open>io_catch\<close> is
  \<open>try\<close>/\<open>catch\<close>.
\<close>

type_synonym ('s, 'a) io = "'s \<Rightarrow> (thrown + 'a) \<times> 's"

definition io_return :: "'a \<Rightarrow> ('s, 'a) io" where
  "io_return a s = (Inr a, s)"

definition io_throw :: "thrown \<Rightarrow> ('s, 'a) io" where
  "io_throw e s = (Inl e, s)"

definition io_bind :: "('s, 'a) io \<Rightarrow> ('a \<Rightarrow> ('s, 'b) io) \<Rightarrow> ('s, 'b) io" where
  "io_bind m f s = (case m s of (Inl e, s1) \<Rightarrow> (Inl e, s1) | (Inr a, s1) \<Rightarrow> f a s1)"

definition io_catch :: "('s, 'a) io \<Rightarrow> (thrown \<Rightarrow> ('s, 'a) io) \<Rightarrow> ('s, 'a) io" where
  "io_catch m h s = (case m s of (Inl e, s1) \<Rightarrow> h e s1 | (Inr a, s1) \<Rightarrow> (Inr a, s1))"

text \<open>
  A task that may not return at all: \<open>None\<close> is running out of fuel.
\<close>

type_synonym ('s, 'a) pio = "'s \<Rightarrow> ((thrown + 'a) \<times> 's) option"

definition lift :: "('s, 'a) io \<Rightarrow> ('s, 'a) pio" where
  "lift m s = Some (m s)"

definition pio_bind :: "('s, 'a) pio \<Rightarrow> ('a \<Rightarrow> ('s, 'b) pio) \<Rightarrow> ('s, 'b) pio" where
  "pio_bind m f s =
     (case m s of None \<Rightarrow> None
      | Some (Inl e, s1) \<Rightarrow> Some (Inl e, s1)
      | Some (Inr a, s1) \<Rightarrow> f a s1)"

section \<open>The local disk\<close>

text \<open>
  The local file system maps a path to a directory or to a regular file with its text.
  The operations follow Node's \<open>fs\<close> and \<open>fs-extra\<close>: \<open>remove\<close> deletes a subtree and
  never fails on a missing path, a plain \<open>mkdir\<close> needs an existing parent directory and
  a free name, \<open>mkdir\<close> with \<open>recursive: true\<close> (and \<open>ensureDir\<close>) creates the missing
  ancestors, \<open>writeFile\<close> creates or overwrites a regular file in an existing directory.
\<close>

datatype lnode = LDir | LFile string

type_synonym lfs = "path \<rightharpoonup> lnode"

definition node_at :: "lfs \<Rightarrow> path \<Rightarrow> lnode option" where
  "node_at L p = (if p = [] then Some LDir else L p)"

definition remove_tree :: "path \<Rightarrow> lfs \<Rightarrow> thrown + unit \<times> lfs" where
  "remove_tree p L = Inr ((), \<lambda>q. if prefix p q then None else L q)"

definition make_dir :: "path \<Rightarrow> lfs \<Rightarrow> thrown + unit \<times> lfs" where
  "make_dir p L =
     (case node_at L p of
        Some _ \<Rightarrow> Inl (errno ''EEXIST'')
      | None \<Rightarrow>
          (case node_at L (butlast p) of
             Some LDir \<Rightarrow> Inr ((), L(p \<mapsto> LDir))
           | Some (LFile _) \<Rightarrow> Inl (errno ''ENOTDIR'')
           | None \<Rightarrow> Inl (errno ''ENOENT'')))"

function make_dirs :: "path \<Rightarrow> lfs \<Rightarrow> thrown + unit \<times> lfs" where
  "make_dirs p L =
     (case node_at L p of
        Some LDir \<Rightarrow> Inr ((), L)
      | Some (LFile _) \<Rightarrow> Inl (errno ''EEXIST'')
      | None \<Rightarrow>
          (case make_dirs (butlast p) L of
             Inl e \<Rightarrow> Inl e
           | Inr (_, L1) \<Rightarrow> Inr ((), L1(p \<mapsto> LDir))))"
  by pat_completeness auto
termination
  by (relation "measure (\<lambda>(p, L). length p)") (auto simp: node_at_def split: if_splits)

declare make_dirs.simps [simp del]

definition write_file :: "path \<Rightarrow> string \<Rightarrow> lfs \<Rightarrow> thrown + unit \<times> lfs" where
  "write_file p data L =
     (case node_at L p of
        Some LDir \<Rightarrow> Inl (errno ''EISDIR'')
      | _ \<Rightarrow>
          (case node_at L (butlast p) of
             Some LDir \<Rightarrow> Inr ((), L(p \<mapsto> LFile data))
           | Some (LFile _) \<Rightarrow> Inl (errno ''ENOTDIR'')
           | None \<Rightarrow> Inl (errno ''ENOENT'')))"

definition read_file :: "path \<Rightarrow> lfs \<Rightarrow> thrown + string \<times> lfs" where
  "read_file p L =
     (case node_at L p of
        Some (LFile data) \<Rightarrow> Inr (data, L)
      | Some LDir \<Rightarrow> Inl (errno ''EISDIR'')
      | None \<Rightarrow> Inl (errno ''ENOENT''))"

section \<open>Requests, and the state of a repository\<close>

text \<open>
  Every request a backend issues is recorded, in order, with whether it succeeded:
  requests to the WebDAV adapter, to the local disk, to \<open>simple-git\<close>, calls of the
  collaborators outside this core, and the lines handed to the \<open>Logger\<close>.
\<close>

datatype event =
    Stat path bool
  | Mkdir path bool
  | Readdir path bool
  | ReadFile path bool
  | WriteFile path string bool
  | FsRemove path bool
  | FsMkdir path bool
  | FsMkdirRecursive path bool
  | FsEnsureDir path bool
  | FsWriteFile path string bool
  | FsReadFile path bool
  | FsExists path bool
  | GitCwd path bool
  | GitCheckIsRepo bool
  | GitInit string bool
  | GitAdd string bool
  | GitStatus bool
  | GitCommit string bool
  | Call string
  | LogInfo "string list"
  | LogError "string list"

text \<open>
  \<open>FileRepository\<close>, the base class: the fields the backends read and write, together
  with the local disk and the record of requests.
\<close>

record file_repo =
  rootPath :: path
  profile :: string
  initialized :: bool
  disk :: lfs
  trace :: "event list"

text \<open>
  The methods of the base class that the backends call, \<open>checkInitialized\<close> and those
  reached through \<open>super\<close>. Their code is outside this core: they are arbitrary tasks
  on the state of the repository.
\<close>

record 's FileRepository =
  checkInitialized :: "('s, unit) io"
  super_initialize :: "('s, unit) io"
  super_download :: "('s, unit) io"
  super_upload :: "('s, unit) io"
  super_duplicateProfileTo :: "string \<Rightarrow> string \<Rightarrow> ('s, unit) io"

definition collaborator :: "string \<Rightarrow> ('z file_repo_scheme, 'a) io \<Rightarrow> ('z file_repo_scheme, 'a) io" where
  "collaborator name m s = (case m s of (r, s1) \<Rightarrow> (r, s1\<lparr>trace := trace s @ [Call name]\<rparr>))"

definition log_info :: "string list \<Rightarrow> ('z file_repo_scheme, unit) io" where
  "log_info args s = (Inr (), s\<lparr>trace := trace s @ [LogInfo args]\<rparr>)"

definition log_error :: "string list \<Rightarrow> ('z file_repo_scheme, unit) io" where
  "log_error args s = (Inr (), s\<lparr>trace := trace s @ [LogError args]\<rparr>)"

definition disk_call ::
  "(lfs \<Rightarrow> thrown + 'a \<times> lfs) \<Rightarrow> (bool \<Rightarrow> event) \<Rightarrow> ('z file_repo_scheme, 'a) io" where
  "disk_call f ev s =
     (case f (disk s) of
        Inl e \<Rightarrow> (Inl e, s\<lparr>trace := trace s @ [ev False]\<rparr>)
      | Inr (a, L) \<Rightarrow> (Inr a, s\<lparr>disk := L, trace := trace s @ [ev True]\<rparr>))"

definition fse_remove :: "path \<Rightarrow> ('z file_repo_scheme, unit) io" where
  "fse_remove p = disk_call (remove_tree p) (FsRemove p)"

definition fse_mkdir :: "path \<Rightarrow> ('z file_repo_scheme, unit) io" where
  "fse_mkdir p = disk_call (make_dir p) (FsMkdir p)"

definition fse_ensureDir :: "path \<Rightarrow> ('z file_repo_scheme, unit) io" where
  "fse_ensureDir p = disk_call (make_dirs p) (FsEnsureDir p)"

definition fs_mkdir_recursive :: "path \<Rightarrow> ('z file_repo_scheme, unit) io" where
  "fs_mkdir_recursive p = disk_call (make_dirs p) (FsMkdirRecursive p)"

definition fs_writeFile :: "path \<Rightarrow> string \<Rightarrow> ('z file_repo_scheme, unit) io" where
  "fs_writeFile p data = disk_call (write_file p data) (FsWriteFile p data)"

definition fs_readFile :: "path \<Rightarrow> ('z file_repo_scheme, string) io" where
  "fs_readFile p = disk_call (read_file p) (FsReadFile p)"

text \<open>
  Modelled from the spec: \<open>exists\<close> of \<open>utils/exists\<close> is not among the sources; the
  spec's placeholder marker file "exists" when its path names an entry of the disk. The
  request is recorded with the answer.
\<close>

definition exists_util :: "path \<Rightarrow> ('z file_repo_scheme, bool) io" where
  "exists_util p s =
     (Inr (node_at (disk s) p \<noteq> None),
      s\<lparr>trace := trace s @ [FsExists p (node_at (disk s) p \<noteq> None)]\<rparr>)"

section \<open>The WebDAV backend\<close>

record FsStat =
  name :: string
  isDirectory :: bool

text \<open>
  The interface \<open>WebDAVFS\<close>: the five promisified operations of the adapter, each a
  task on the state \<open>'r\<close> of the server and the connection.
\<close>

record 'r WebDAVFS =
  mkdir :: "path \<Rightarrow> 'r \<Rightarrow> (thrown + unit) \<times> 'r"
  readdir :: "path \<Rightarrow> 'r \<Rightarrow> (thrown + FsStat list) \<times> 'r"
  readFile :: "path \<Rightarrow> 'r \<Rightarrow> (thrown + string) \<times> 'r"
  stat :: "path \<Rightarrow> 'r \<Rightarrow> (thrown + FsStat) \<times> 'r"
  writeFile :: "path \<Rightarrow> string \<Rightarrow> 'r \<Rightarrow> (thrown + unit) \<times> 'r"

text \<open>
  \<open>WebDAVRepository\<close>: the base class's fields, \<open>_url\<close>, the optional \<open>_fs\<close>, the
  server it talks to, and the object \<open>exists\<close> that \<open>push\<close> allocates and hands by
  reference to \<open>pushFile\<close> and \<open>ensureDir\<close>.
\<close>

record 'r webdav_repo = file_repo +
  url :: string
  davfs :: "'r WebDAVFS option"
  server :: 'r
  exists :: "path \<rightharpoonup> bool"

text \<open>
  A call \<open>this._fs!.op(...)\<close>: a \<open>TypeError\<close> when \<open>_fs\<close> is undefined, the adapter's
  answer otherwise.
\<close>

definition dav_call ::
  "('r WebDAVFS \<Rightarrow> 'r \<Rightarrow> (thrown + 'a) \<times> 'r) \<Rightarrow> (bool \<Rightarrow> event) \<Rightarrow> ('r webdav_repo, 'a) io" where
  "dav_call f ev s =
     (case davfs s of
        None \<Rightarrow> (Inl type_error, s)
      | Some fs \<Rightarrow>
          (case f fs (server s) of
             (r, srv) \<Rightarrow> (r, s\<lparr>trace := trace s @ [ev (\<not> isl r)], server := srv\<rparr>)))"

definition dav_stat :: "path \<Rightarrow> ('r webdav_repo, FsStat) io" where
  "dav_stat p = dav_call (\<lambda>fs. stat fs p) (Stat p)"

definition dav_mkdir :: "path \<Rightarrow> ('r webdav_repo, unit) io" where
  "dav_mkdir p = dav_call (\<lambda>fs. mkdir fs p) (Mkdir p)"

definition dav_readdir :: "path \<Rightarrow> ('r webdav_repo, FsStat list) io" where
  "dav_readdir p = dav_call (\<lambda>fs. readdir fs p) (Readdir p)"

definition dav_readFile :: "path \<Rightarrow> ('r webdav_repo, string) io" where
  "dav_readFile p = dav_call (\<lambda>fs. readFile fs p) (ReadFile p)"

definition dav_writeFile :: "path \<Rightarrow> string \<Rightarrow> ('r webdav_repo, unit) io" where
  "dav_writeFile p data = dav_call (\<lambda>fs. writeFile fs p data) (WriteFile p data)"

subsection \<open>initialize, download, upload\<close>

definition webdav_initialize ::
  "'r webdav_repo FileRepository \<Rightarrow> ('r webdav_repo, unit) io \<Rightarrow> (string \<Rightarrow> 'r WebDAVFS) \<Rightarrow>
     ('r webdav_repo, unit) io" where
  \<open>webdav_initialize base temporary_initialize createAdapter =
     io_bind (collaborator ''TemporaryRepository.initialize'' temporary_initialize) (\<lambda>_.
     io_bind (\<lambda>s. (Inr (), s\<lparr>davfs := Some (createAdapter (url s))\<rparr>)) (\<lambda>_. \<lambda>s.
       (case dav_stat [] s of
          (Inl error, s1) \<Rightarrow>
            (if err_code error = Some ''ECONNREFUSED'' then
               log_error [''The connection to "'' @ url s1 @ ''" is refused.''] s1
             else if err_status error = Some 401 then
               log_error [''The connection to "'' @ url s1 @ ''" isn't authorized.''] s1
             else if err_status error = Some 404 then
               log_error [''The url "'' @ url s1 @ ''" can't be found.''] s1
             else
               log_error [err_string error] s1)
        | (Inr _, s1) \<Rightarrow> collaborator ''super.initialize'' (super_initialize base) s1)))\<close>

subsection \<open>ensureDir and push\<close>

function ensureDir :: "path \<Rightarrow> ('r webdav_repo, unit) io" where
  "ensureDir dir =
     (\<lambda>s. if exists s dir = Some True then (Inr (), s)
          else
            io_bind (if dir \<noteq> [] then ensureDir (parent dir) else io_return ()) (\<lambda>_.
            io_bind (io_catch (io_bind (dav_stat dir) (\<lambda>_. io_return ())) (\<lambda>_. dav_mkdir dir)) (\<lambda>_.
              (\<lambda>s. (Inr (), s\<lparr>exists := (exists s)(dir \<mapsto> True)\<rparr>)))) s)"
  by pat_completeness auto
termination
  by (relation "measure length") (auto simp: parent_def)

declare ensureDir.simps [simp del]

definition pushFile :: "path \<Rightarrow> path \<Rightarrow> ('r webdav_repo, unit) io" where
  "pushFile localFile remoteFile =
     io_bind (log_info [''push file: '' @ path_str remoteFile]) (\<lambda>_.
     io_bind (ensureDir (parent remoteFile)) (\<lambda>_.
     io_bind (fs_readFile localFile) (\<lambda>data.
       dav_writeFile remoteFile data)))"

fun pushFiles :: "path list \<Rightarrow> ('r webdav_repo, unit) io" where
  "pushFiles [] = io_return ()"
| "pushFiles (file # files) =
     io_bind (\<lambda>s. pushFile (path_join (rootPath s) file) file s) (\<lambda>_. pushFiles files)"

text \<open>
  \<open>globby\<close> is a library outside this core: any function from the mirror's root and the
  disk to a list of relative file paths, or a rejection.
\<close>

definition webdav_push :: "(path \<Rightarrow> lfs \<Rightarrow> thrown + path list) \<Rightarrow> ('r webdav_repo, unit) io" where
  "webdav_push globby =
     io_bind (log_info [''push to webdav'']) (\<lambda>_.
     io_bind (\<lambda>s. (case globby (rootPath s) (disk s) of
                      Inl e \<Rightarrow> (Inl e, s\<lparr>trace := trace s @ [Call ''globby'']\<rparr>)
                    | Inr files \<Rightarrow> (Inr files, s\<lparr>trace := trace s @ [Call ''globby'']\<rparr>))) (\<lambda>files.
     io_bind (\<lambda>s. (Inr (), s\<lparr>exists := Map.empty\<rparr>)) (\<lambda>_.
     io_bind (pushFiles files) (\<lambda>_.
       log_info [''push done'']))))"

definition webdav_upload ::
  "'r webdav_repo FileRepository \<Rightarrow> (path \<Rightarrow> lfs \<Rightarrow> thrown + path list) \<Rightarrow> ('r webdav_repo, unit) io" where
  "webdav_upload base globby =
     io_bind (collaborator ''checkInitialized'' (checkInitialized base)) (\<lambda>_.
     io_bind (collaborator ''super.upload'' (super_upload base)) (\<lambda>_.
       webdav_push globby))"

subsection \<open>pull\<close>

definition pullFile :: "path \<Rightarrow> path \<Rightarrow> ('r webdav_repo, unit) io" where
  "pullFile localFile remoteFile =
     io_bind (dav_readFile remoteFile) (\<lambda>data. fs_writeFile localFile data)"

text \<open>
  The recursion of \<open>pullDirectory\<close> follows what the server lists, so it need not end:
  the first argument is fuel, and \<open>None\<close> is a walk that has not returned within it.
  \<open>pullEntries\<close> is the \<open>for\<close> loop over a listing; the loop of \<open>pull\<close> over the root's
  listing is the same loop, as \<open>Uri.file(name)\<close> is \<open>Uri.joinPath\<close> of the root and \<open>name\<close>.
\<close>

fun pullDirectory :: "nat \<Rightarrow> path \<Rightarrow> path \<Rightarrow> ('r webdav_repo, unit) pio"
  and pullEntries :: "nat \<Rightarrow> path \<Rightarrow> path \<Rightarrow> FsStat list \<Rightarrow> ('r webdav_repo, unit) pio" where
  "pullDirectory 0 localDir remoteDir = (\<lambda>s. None)"
| "pullDirectory (Suc n) localDir remoteDir =
     pio_bind (lift (io_bind (fse_mkdir localDir) (\<lambda>_. dav_readdir remoteDir))) (\<lambda>files.
       pullEntries n localDir remoteDir files)"
| "pullEntries n localDir remoteDir [] = lift (io_return ())"
| "pullEntries n localDir remoteDir (file # files) =
     pio_bind
       (if isDirectory file
        then pullDirectory n (path_join localDir [name file]) (joinPath remoteDir (name file))
        else lift (pullFile (path_join localDir [name file]) (joinPath remoteDir (name file))))
       (\<lambda>_. pullEntries n localDir remoteDir files)"

definition webdav_pull :: "nat \<Rightarrow> ('r webdav_repo, unit) pio" where
  "webdav_pull n =
     pio_bind (lift (io_bind (log_info [''pull from webdav'']) (\<lambda>_.
                     io_bind (\<lambda>s. fse_remove (rootPath s) s) (\<lambda>_.
                     io_bind (\<lambda>s. fse_mkdir (rootPath s) s) (\<lambda>_.
                       dav_readdir []))))) (\<lambda>files.
     pio_bind (\<lambda>s. pullEntries n (rootPath s) [] files s) (\<lambda>_.
       lift (log_info [''pull done''])))"

definition webdav_download :: "'r webdav_repo FileRepository \<Rightarrow> nat \<Rightarrow> ('r webdav_repo, unit) pio" where
  "webdav_download base n =
     pio_bind (lift (collaborator ''checkInitialized'' (checkInitialized base))) (\<lambda>_.
     pio_bind (webdav_pull n) (\<lambda>_.
       lift (collaborator ''super.download'' (super_download base))))"

section \<open>The Git backend\<close>

datatype CommitType = CREATE | UPLOAD

record StatusResult =
  staged :: "string list"

text \<open>
  The operations of \<open>simple-git\<close> that the backend calls: each reads the local disk and
  is a task on the state \<open>'g\<close> of the instance and its repository.
\<close>

record 'g SimpleGit =
  cwd :: "path \<Rightarrow> lfs \<Rightarrow> 'g \<Rightarrow> (thrown + unit) \<times> 'g"
  checkIsRepo :: "lfs \<Rightarrow> 'g \<Rightarrow> (thrown + bool) \<times> 'g"
  init :: "string \<Rightarrow> lfs \<Rightarrow> 'g \<Rightarrow> (thrown + unit) \<times> 'g"
  add :: "string \<Rightarrow> lfs \<Rightarrow> 'g \<Rightarrow> (thrown + unit) \<times> 'g"
  status :: "lfs \<Rightarrow> 'g \<Rightarrow> (thrown + StatusResult) \<times> 'g"
  commit :: "string \<Rightarrow> lfs \<Rightarrow> 'g \<Rightarrow> (thrown + unit) \<times> 'g"

text \<open>
  \<open>LocalGitRepository\<close>: the base class's fields, \<open>_branch\<close>, and \<open>_git\<close> as the
  operations of the instance together with its state.
\<close>

record 'g git_repo = file_repo +
  branch :: string
  git :: "'g SimpleGit"
  repository :: 'g

definition git_call ::
  "('g SimpleGit \<Rightarrow> lfs \<Rightarrow> 'g \<Rightarrow> (thrown + 'a) \<times> 'g) \<Rightarrow> (bool \<Rightarrow> event) \<Rightarrow> ('g git_repo, 'a) io" where
  "git_call f ev s =
     (case f (git s) (disk s) (repository s) of
        (r, g) \<Rightarrow> (r, s\<lparr>trace := trace s @ [ev (\<not> isl r)], repository := g\<rparr>))"

definition git_cwd :: "path \<Rightarrow> ('g git_repo, unit) io" where
  "git_cwd p = git_call (\<lambda>g. cwd g p) (GitCwd p)"

definition git_checkIsRepo :: "('g git_repo, bool) io" where
  "git_checkIsRepo = git_call checkIsRepo GitCheckIsRepo"

definition git_init :: "string \<Rightarrow> ('g git_repo, unit) io" where
  "git_init b = git_call (\<lambda>g. init g b) (GitInit b)"

definition git_add :: "string \<Rightarrow> ('g git_repo, unit) io" where
  "git_add files = git_call (\<lambda>g. add g files) (GitAdd files)"

definition git_status :: "('g git_repo, StatusResult) io" where
  "git_status = git_call status GitStatus"

definition git_commit :: "string \<Rightarrow> ('g git_repo, unit) io" where
  "git_commit message = git_call (\<lambda>g. commit g message) (GitCommit message)"

text \<open>
  \<open>push(type, profile)\<close>, its second parameter written \<open>profileName\<close>; a caller that
  leaves it out passes \<open>this._profile\<close>.
\<close>

definition git_push :: "CommitType \<Rightarrow> string \<Rightarrow> ('g git_repo, unit) io" where
  "git_push type profileName =
     io_bind (git_add ''.'') (\<lambda>_.
     io_bind git_status (\<lambda>status.
       if length (staged status) = 0 then
         log_info [''no changes, no commit'']
       else
         (let message =
            (if type = CREATE then profileName @ '': create'' else profileName @ '': update'') in
          io_bind (log_info [''commit: '' @ message]) (\<lambda>_.
            git_commit message))))"

definition git_pull :: "('g git_repo, bool) io" where
  "git_pull =
     io_bind (\<lambda>s. fse_ensureDir (rootPath s) s) (\<lambda>_.
     io_bind (\<lambda>s. git_cwd (rootPath s) s) (\<lambda>_.
     io_bind git_checkIsRepo (\<lambda>isRepo.
     io_bind (if \<not> isRepo then
                io_bind (\<lambda>s. log_info [''creating git at'', path_str (rootPath s)] s) (\<lambda>_.
                  (\<lambda>s. git_init (branch s) s))
              else io_return ()) (\<lambda>_.
       io_return True))))"

definition git_initialize :: "('g git_repo, unit) io" where
  "git_initialize =
     io_bind git_pull (\<lambda>pulled.
       if \<not> pulled then log_error [''can not pull git repository'']
       else (\<lambda>s.
         (let profilePath = path_join (rootPath s) [''profiles'', profile s];
              gitkeepPath = path_join profilePath [''.gitkeep''] in
          io_bind (exists_util gitkeepPath) (\<lambda>found.
          io_bind (if \<not> found then
                     io_bind (fs_mkdir_recursive profilePath) (\<lambda>_.
                     io_bind (fs_writeFile gitkeepPath []) (\<lambda>_.
                       (\<lambda>s. git_push CREATE (profile s) s)))
                   else io_return ()) (\<lambda>_.
            (\<lambda>s. (Inr (), s\<lparr>initialized := True\<rparr>))))) s))"

definition git_upload :: "'g git_repo FileRepository \<Rightarrow> ('g git_repo, unit) io" where
  "git_upload base =
     io_bind (collaborator ''super.upload'' (super_upload base)) (\<lambda>_.
       (\<lambda>s. git_push UPLOAD (profile s) s))"

definition duplicateProfileTo ::
  "'g git_repo FileRepository \<Rightarrow> string \<Rightarrow> string \<Rightarrow> ('g git_repo, unit) io" where
  "duplicateProfileTo base originalProfile newProfile =
     io_bind (collaborator ''super.duplicateProfileTo''
                (super_duplicateProfileTo base originalProfile newProfile)) (\<lambda>_. \<lambda>s.
       (let profilePath = path_join (rootPath s) [''profiles'', newProfile];
            gitkeepPath = path_join profilePath [''.gitkeep''] in
        io_bind (exists_util gitkeepPath) (\<lambda>found.
        io_bind (if \<not> found then
                   io_bind (fs_mkdir_recursive profilePath) (\<lambda>_.
                     fs_writeFile gitkeepPath [])
                 else io_return ()) (\<lambda>_.
          git_push CREATE newProfile))) s)"

subsection \<open>A model of the repository behind simple-git\<close>

text \<open>
  The index and the tree of the last commit, as lists of file names with their text.
  \<open>git add .\<close> replaces the index by \<open>snapshot\<close> of the working directory, whatever
  that function of the disk is (it decides which files count); \<open>git status\<close> reports as
  staged the names on which the index and the last commit differ; \<open>git commit\<close> makes
  the index the last commit.
\<close>

record git_db =
  workdir :: "path option"
  is_repo :: bool
  initial_branch :: string
  index :: "(string \<times> string) list"
  head :: "(string \<times> string) list"
  commits :: "string list"

definition changed :: "(string \<times> string) list \<Rightarrow> (string \<times> string) list \<Rightarrow> string list" where
  "changed idx tree =
     filter (\<lambda>n. map_of idx n \<noteq> map_of tree n) (remdups (map fst idx @ map fst tree))"

definition not_a_repository :: thrown where
  "not_a_repository = Thrown None None ''fatal: not a git repository''"

definition local_git :: "(path \<Rightarrow> lfs \<Rightarrow> (string \<times> string) list) \<Rightarrow> git_db SimpleGit" where
  "local_git snapshot =
     \<lparr>cwd = (\<lambda>p L g. (Inr (), g\<lparr>workdir := Some p\<rparr>)),
      checkIsRepo = (\<lambda>L g. (Inr (is_repo g), g)),
      init = (\<lambda>b L g.
        if is_repo g then (Inr (), g) else (Inr (), g\<lparr>is_repo := True, initial_branch := b\<rparr>)),
      add = (\<lambda>files L g.
        (case workdir g of
           None \<Rightarrow> (Inl not_a_repository, g)
         | Some w \<Rightarrow>
             if is_repo g then (Inr (), g\<lparr>index := snapshot w L\<rparr>)
             else (Inl not_a_repository, g))),
      status = (\<lambda>L g.
        if is_repo g then (Inr \<lparr>staged = changed (index g) (head g)\<rparr>, g)
        else (Inl not_a_repository, g)),
      commit = (\<lambda>message L g.
        if is_repo g then (Inr (), g\<lparr>head := index g, commits := commits g @ [message]\<rparr>)
        else (Inl not_a_repository, g))\<rparr>"

section \<open>A WebDAV server as a tree\<close>

text \<open>
  A model of the server behind the adapter: a tree of named collections and files.
  A name is looked up among the children of a collection from the front; \<open>MKCOL\<close> and
  \<open>PUT\<close> need an existing parent collection.
\<close>

datatype rnode = RFile string string | RDir string "rnode list"

fun rname :: "rnode \<Rightarrow> string" where
  "rname (RFile n c) = n"
| "rname (RDir n cs) = n"

fun to_stat :: "rnode \<Rightarrow> FsStat" where
  "to_stat (RFile n c) = \<lparr>name = n, isDirectory = False\<rparr>"
| "to_stat (RDir n cs) = \<lparr>name = n, isDirectory = True\<rparr>"

fun rlookup :: "rnode \<Rightarrow> path \<Rightarrow> rnode option" where
  "rlookup n [] = Some n"
| "rlookup (RFile _ _) (x # xs) = None"
| "rlookup (RDir _ cs) (x # xs) =
     (case find (\<lambda>c. rname c = x) cs of None \<Rightarrow> None | Some c \<Rightarrow> rlookup c xs)"

fun rput :: "rnode \<Rightarrow> path \<Rightarrow> rnode \<Rightarrow> rnode option" where
  "rput n [] v = None"
| "rput (RFile _ _) (x # xs) v = None"
| "rput (RDir d cs) [x] v = Some (RDir d (filter (\<lambda>c. rname c \<noteq> x) cs @ [v]))"
| "rput (RDir d cs) (x # y # ys) v =
     (case find (\<lambda>c. rname c = x) cs of
        None \<Rightarrow> None
      | Some c \<Rightarrow>
          (case rput c (y # ys) v of
             None \<Rightarrow> None
           | Some c' \<Rightarrow> Some (RDir d (map (\<lambda>k. if rname k = x then c' else k) cs))))"

definition http_error :: "int \<Rightarrow> thrown" where
  "http_error n = Thrown None (Some n) ''Error: Invalid response''"

definition tree_stat :: "path \<Rightarrow> rnode \<Rightarrow> (thrown + FsStat) \<times> rnode" where
  "tree_stat p R = (case rlookup R p of None \<Rightarrow> (Inl (http_error 404), R) | Some n \<Rightarrow> (Inr (to_stat n), R))"

definition tree_readdir :: "path \<Rightarrow> rnode \<Rightarrow> (thrown + FsStat list) \<times> rnode" where
  "tree_readdir p R =
     (case rlookup R p of
        Some (RDir _ cs) \<Rightarrow> (Inr (map to_stat cs), R)
      | _ \<Rightarrow> (Inl (http_error 404), R))"

definition tree_readFile :: "path \<Rightarrow> rnode \<Rightarrow> (thrown + string) \<times> rnode" where
  "tree_readFile p R =
     (case rlookup R p of
        Some (RFile _ c) \<Rightarrow> (Inr c, R)
      | _ \<Rightarrow> (Inl (http_error 404), R))"

definition tree_mkdir :: "path \<Rightarrow> rnode \<Rightarrow> (thrown + unit) \<times> rnode" where
  "tree_mkdir p R =
     (case rlookup R p of
        Some _ \<Rightarrow> (Inl (http_error 405), R)
      | None \<Rightarrow>
          (case rput R p (RDir (last p) []) of
             None \<Rightarrow> (Inl (http_error 409), R)
           | Some R' \<Rightarrow> (Inr (), R')))"

definition tree_writeFile :: "path \<Rightarrow> string \<Rightarrow> rnode \<Rightarrow> (thrown + unit) \<times> rnode" where
  "tree_writeFile p data R =
     (case rlookup R p of
        Some (RDir _ _) \<Rightarrow> (Inl (http_error 405), R)
      | _ \<Rightarrow>
          (case rput R p (RFile (last p) data) of
             None \<Rightarrow> (Inl (http_error 409), R)
           | Some R' \<Rightarrow> (Inr (), R')))"

definition tree_fs :: "rnode WebDAVFS" where
  "tree_fs = \<lparr>mkdir = tree_mkdir, readdir = tree_readdir, readFile = tree_readFile,
              stat = tree_stat, writeFile = tree_writeFile\<rparr>"

definition example_disk :: lfs where
  "example_disk =
     [[''tmp''] \<mapsto> LDir, [''tmp'', ''mirror''] \<mapsto> LDir,
      [''tmp'', ''mirror'', ''profiles''] \<mapsto> LDir,
      [''tmp'', ''mirror'', ''profiles'', ''main''] \<mapsto> LDir,
      [''tmp'', ''mirror'', ''profiles'', ''main'', ''a.json''] \<mapsto> LFile ''A'',
      [''tmp'', ''mirror'', ''profiles'', ''main'', ''b.json''] \<mapsto> LFile ''B'']"

definition example_repo :: "rnode webdav_repo" where
  "example_repo =
     \<lparr>rootPath = [''tmp'', ''mirror''], profile = ''main'', initialized = True,
      disk = example_disk, trace = [],
      url = ''http://dav'', davfs = Some tree_fs, server = RDir [] [RDir ''profiles'' []],
      exists = Map.empty\<rparr>"

definition example_globby :: "path \<Rightarrow> lfs \<Rightarrow> thrown + path list" where
  "example_globby root L =
     Inr [[''profiles'', ''main'', ''a.json''], [''profiles'', ''main'', ''b.json'']]"



definition example_cached :: "rnode webdav_repo" where
  "example_cached = example_repo\<lparr>exists := [[] \<mapsto> True, [''profiles''] \<mapsto> True]\<rparr>"

text \<open>
  An adapter whose \<open>stat\<close> is refused, and the repository after
  \<open>TemporaryRepository.initialize\<close> has returned.
\<close>

definition refused_error :: thrown where
  "refused_error = Thrown (Some ''ECONNREFUSED'') None ''Error: connect ECONNREFUSED''"

definition refusing_adapter :: "string \<Rightarrow> rnode WebDAVFS" where
  "refusing_adapter u =
     tree_fs\<lparr>stat := (\<lambda>p R. (Inl refused_error, R))\<rparr>"

definition example_connecting :: "rnode webdav_repo" where
  "example_connecting =
     example_repo\<lparr>trace := trace example_repo @ [Call ''TemporaryRepository.initialize'']\<rparr>"


section \<open>What a record of requests shows\<close>

text \<open>
  The paths of the \<open>stat\<close> probes and of the \<open>mkdir\<close> requests of a record, in order.
\<close>

fun stats_of :: "event list \<Rightarrow> path list" where
  "stats_of [] = []"
| "stats_of (Stat p ok # es) = p # stats_of es"
| "stats_of (e # es) = stats_of es"

fun mkdirs_of :: "event list \<Rightarrow> path list" where
  "mkdirs_of [] = []"
| "mkdirs_of (Mkdir p ok # es) = p # mkdirs_of es"
| "mkdirs_of (e # es) = mkdirs_of es"


text \<open>
  A run from \<open>s\<close> to \<open>s'\<close> that probes and creates each path at most once, and
  only paths the cache of \<open>s\<close> does not hold; \<open>ok\<close> is a normal return.
\<close>

definition once_run :: "'r webdav_repo \<Rightarrow> bool \<Rightarrow> 'r webdav_repo \<Rightarrow> bool" where
  "once_run s ok s' =
     (\<exists>evs. trace s' = trace s @ evs \<and> distinct (stats_of evs) \<and> distinct (mkdirs_of evs) \<and>
        set (mkdirs_of evs) \<subseteq> set (stats_of evs) \<and>
        (\<forall>p\<in>set (stats_of evs). exists s p \<noteq> Some True) \<and>
        (\<forall>p. exists s p = Some True \<longrightarrow> exists s' p = Some True) \<and>
        (ok \<longrightarrow> (\<forall>p\<in>set (stats_of evs). exists s' p = Some True)))"


text \<open>
  The path a request probes or creates, the path a request settles (a \<open>stat\<close> that
  resolved, a \<open>mkdir\<close> that was performed), and a record in which every such request
  comes after the settling of all proper ancestors of its path: \<open>C\<close> holds the paths
  settled before the record starts.
\<close>

fun settles :: "event \<Rightarrow> path set" where
  "settles (Stat q ok) = (if ok then {q} else {})"
| "settles (Mkdir q ok) = (if ok then {q} else {})"
| "settles e = {}"

fun target :: "event \<Rightarrow> path option" where
  "target (Stat p ok) = Some p"
| "target (Mkdir p ok) = Some p"
| "target e = None"

fun ancestors_first :: "path set \<Rightarrow> event list \<Rightarrow> bool" where
  "ancestors_first C [] = True"
| "ancestors_first C (e # es) =
     ((case target e of None \<Rightarrow> True | Some p \<Rightarrow> \<forall>q. strict_prefix q p \<longrightarrow> q \<in> C) \<and>
      ancestors_first (C \<union> settles e) es)"

definition known :: "'r webdav_repo \<Rightarrow> path set" where
  "known s = {p. exists s p = Some True}"

definition closed :: "path set \<Rightarrow> bool" where
  "closed C = (\<forall>p\<in>C. \<forall>q. prefix q p \<longrightarrow> q \<in> C)"

definition ordered_run :: "'r webdav_repo \<Rightarrow> bool \<Rightarrow> 'r webdav_repo \<Rightarrow> bool" where
  "ordered_run s ok s' =
     (closed (known s) \<longrightarrow>
        (\<exists>evs. trace s' = trace s @ evs \<and> ancestors_first (known s) evs \<and>
           (ok \<longrightarrow> known s' = known s \<union> \<Union> (settles ` set evs) \<and> closed (known s'))))"


text \<open>
  A run from \<open>s\<close> to \<open>s'\<close> that hands no error line to the \<open>Logger\<close>.
\<close>

definition logs_no_error :: "'z file_repo_scheme \<Rightarrow> 'z file_repo_scheme \<Rightarrow> bool" where
  "logs_no_error s s' = (\<exists>evs. trace s' = trace s @ evs \<and> (\<forall>args. LogError args \<notin> set evs))"


section \<open>A repository with a local Git, for concrete runs\<close>

definition example_snapshot :: "path \<Rightarrow> lfs \<Rightarrow> (string \<times> string) list" where
  "example_snapshot w L =
     (case L (w @ [''profiles'', ''work'', ''.gitkeep'']) of
        Some (LFile c) \<Rightarrow> [(''profiles/work/.gitkeep'', c)]
      | _ \<Rightarrow> [])"

definition example_git_repo :: "git_db git_repo" where
  "example_git_repo =
     \<lparr>rootPath = [''repo''], profile = ''work'', initialized = False,
      disk = [[''repo''] \<mapsto> LDir, [''repo'', ''profiles''] \<mapsto> LDir,
              [''repo'', ''profiles'', ''work''] \<mapsto> LDir,
              [''repo'', ''profiles'', ''work'', ''.gitkeep''] \<mapsto> LFile []],
      trace = [], branch = ''main'', git = local_git example_snapshot,
      repository = \<lparr>workdir = Some [''repo''], is_repo = True, initial_branch = ''main'',
                     index = [], head = [], commits = []\<rparr>\<rparr>"

definition example_pushed :: "git_db git_repo" where
  "example_pushed = snd (git_push CREATE ''work'' example_git_repo)"

definition example_base :: "'z file_repo_scheme FileRepository" where
  "example_base =
     \<lparr>checkInitialized =
        (\<lambda>s. if initialized s then (Inr (), s) else (Inl (Thrown None None ''not initialized''), s)),
      super_initialize = (\<lambda>s. (Inr (), s\<lparr>initialized := True\<rparr>)),
      super_download = io_return (),
      super_upload = io_return (),
      super_duplicateProfileTo = (\<lambda>originalProfile newProfile. io_return ())\<rparr>"

section \<open>Proofs: the directory cache of push\<close>

lemma stats_of_append [simp]: "stats_of (xs @ ys) = stats_of xs @ stats_of ys"
  by (induction xs rule: stats_of.induct) simp_all

lemma mkdirs_of_append [simp]: "mkdirs_of (xs @ ys) = mkdirs_of xs @ mkdirs_of ys"
  by (induction xs rule: mkdirs_of.induct) simp_all

lemma dav_call_result:
  assumes "dav_call f ev s = (r, s')"
  shows "exists s' = exists s \<and> davfs s' = davfs s \<and> rootPath s' = rootPath s \<and> disk s' = disk s \<and>
         initialized s' = initialized s \<and>
         (case davfs s of None \<Rightarrow> trace s' = trace s \<and> r = Inl type_error
          | Some fs \<Rightarrow> trace s' = trace s @ [ev (\<not> isl r)])"
  using assms by (auto simp: dav_call_def split: option.splits prod.splits)

lemma ensureDir_hit: "exists s dir = Some True \<Longrightarrow> ensureDir dir s = (Inr (), s)"
  by (subst ensureDir.simps) simp

lemma ensureDir_step:
  assumes miss: "exists s dir \<noteq> Some True" and run: "ensureDir dir s = (r, s')"
  shows "\<exists>r1 s1. (if dir \<noteq> [] then ensureDir (parent dir) s else (Inr (), s)) = (r1, s1) \<and>
           (case r1 of
              Inl e \<Rightarrow> r = Inl e \<and> s' = s1
            | Inr _ \<Rightarrow>
                (isl r \<and> trace s' = trace s1 \<and> exists s' = exists s1) \<or>
                (r = Inr () \<and> trace s' = trace s1 @ [Stat dir True] \<and> exists s' = (exists s1)(dir \<mapsto> True)) \<or>
                (r = Inr () \<and> trace s' = trace s1 @ [Stat dir False, Mkdir dir True] \<and>
                   exists s' = (exists s1)(dir \<mapsto> True)) \<or>
                (isl r \<and> trace s' = trace s1 @ [Stat dir False, Mkdir dir False] \<and> exists s' = exists s1))"
proof -
  obtain r1 s1 where r1: "(if dir \<noteq> [] then ensureDir (parent dir) s else (Inr (), s)) = (r1, s1)"
    by (cases "(if dir \<noteq> [] then ensureDir (parent dir) s else (Inr (), s))") auto
  show ?thesis
  proof (cases r1)
    case (Inl e)
    with miss run r1 show ?thesis
      by (subst (asm) ensureDir.simps) (auto simp: io_bind_def io_return_def split: if_splits)
  next
    case (Inr u)
    obtain r2 s2 where r2: "dav_stat dir s1 = (r2, s2)" by (cases "dav_stat dir s1") auto
    obtain r3 s3 where r3: "dav_mkdir dir s2 = (r3, s3)" by (cases "dav_mkdir dir s2") auto
    note f2 = dav_call_result[OF r2[unfolded dav_stat_def]]
    note f3 = dav_call_result[OF r3[unfolded dav_mkdir_def]]
    from miss run r1 Inr r2 r3 f2 f3 show ?thesis
      apply (subst (asm) ensureDir.simps)
      apply (cases "davfs s1")
       apply (auto simp: io_bind_def io_return_def io_catch_def split: if_splits sum.splits)
      done
  qed
qed


lemma once_run_trans:
  assumes "once_run s True s1" and "once_run s1 ok s'"
  shows "once_run s ok s'"
proof -
  from assms(1) obtain evs1 where 1: "trace s1 = trace s @ evs1" "distinct (stats_of evs1)"
    "distinct (mkdirs_of evs1)" "set (mkdirs_of evs1) \<subseteq> set (stats_of evs1)"
    "\<forall>p\<in>set (stats_of evs1). exists s p \<noteq> Some True"
    "\<forall>p. exists s p = Some True \<longrightarrow> exists s1 p = Some True"
    "\<forall>p\<in>set (stats_of evs1). exists s1 p = Some True"
    unfolding once_run_def by blast
  from assms(2) obtain evs2 where 2: "trace s' = trace s1 @ evs2" "distinct (stats_of evs2)"
    "distinct (mkdirs_of evs2)" "set (mkdirs_of evs2) \<subseteq> set (stats_of evs2)"
    "\<forall>p\<in>set (stats_of evs2). exists s1 p \<noteq> Some True"
    "\<forall>p. exists s1 p = Some True \<longrightarrow> exists s' p = Some True"
    "ok \<longrightarrow> (\<forall>p\<in>set (stats_of evs2). exists s' p = Some True)"
    unfolding once_run_def by blast
  have disj: "set (stats_of evs1) \<inter> set (stats_of evs2) = {}"
    using 1(7) 2(5) by blast
  then have disj': "set (mkdirs_of evs1) \<inter> set (mkdirs_of evs2) = {}"
    using 1(4) 2(4) by blast
  show ?thesis
    unfolding once_run_def
  proof (intro exI[of _ "evs1 @ evs2"] conjI)
    show "trace s' = trace s @ evs1 @ evs2" using 1(1) 2(1) by simp
    show "distinct (stats_of (evs1 @ evs2))" using 1(2) 2(2) disj by simp
    show "distinct (mkdirs_of (evs1 @ evs2))" using 1(3) 2(3) disj' by simp
    show "set (mkdirs_of (evs1 @ evs2)) \<subseteq> set (stats_of (evs1 @ evs2))" using 1(4) 2(4) by auto
    show "\<forall>p\<in>set (stats_of (evs1 @ evs2)). exists s p \<noteq> Some True"
      using 1(5,6) 2(5) by auto
    show "\<forall>p. exists s p = Some True \<longrightarrow> exists s' p = Some True" using 1(6) 2(6) by blast
    show "ok \<longrightarrow> (\<forall>p\<in>set (stats_of (evs1 @ evs2)). exists s' p = Some True)"
      using 1(7) 2(6,7) by auto
  qed
qed

lemma once_run_fail: "once_run s ok s' \<Longrightarrow> once_run s False s'"
  unfolding once_run_def by blast

lemma once_run_quiet:
  assumes "trace s' = trace s @ evs" "stats_of evs = []" "mkdirs_of evs = []" "exists s' = exists s"
  shows "once_run s ok s'"
  unfolding once_run_def using assms by (intro exI[of _ evs]) simp

lemma once_run_bind:
  assumes run: "io_bind m f s = (r, s')"
    and m: "\<And>r1 s1. m s = (r1, s1) \<Longrightarrow> once_run s (\<not> isl r1) s1"
    and f: "\<And>a s1. m s = (Inr a, s1) \<Longrightarrow> f a s1 = (r, s') \<Longrightarrow> once_run s1 (\<not> isl r) s'"
  shows "once_run s (\<not> isl r) s'"
proof (cases "m s")
  case (Pair r1 s1)
  show ?thesis
  proof (cases r1)
    case (Inl e)
    with Pair run have "r = Inl e" "s' = s1" by (simp_all add: io_bind_def)
    with m[OF Pair] Inl show ?thesis by simp
  next
    case (Inr a)
    with Pair run have "f a s1 = (r, s')" by (simp add: io_bind_def)
    with m[OF Pair] f[of a s1] Pair Inr show ?thesis by (auto intro: once_run_trans)
  qed
qed

lemma ensureDir_once:
  "ensureDir dir s = (r, s') \<Longrightarrow>
     \<exists>evs. trace s' = trace s @ evs \<and> distinct (stats_of evs) \<and> distinct (mkdirs_of evs) \<and>
        set (mkdirs_of evs) \<subseteq> set (stats_of evs) \<and>
        (\<forall>p\<in>set (stats_of evs). prefix p dir \<and> exists s p \<noteq> Some True) \<and>
        (\<forall>p. exists s p = Some True \<longrightarrow> exists s' p = Some True) \<and>
        (\<not> isl r \<longrightarrow> (\<forall>p\<in>set (stats_of evs). exists s' p = Some True) \<and> exists s' dir = Some True)"
proof (induction "length dir" arbitrary: dir s r s' rule: less_induct)
  case less
  show ?case
  proof (cases "exists s dir = Some True")
    case True
    with less.prems ensureDir_hit[OF True] have "r = Inr ()" "s' = s" by auto
    with True show ?thesis by (intro exI[of _ "[]"]) simp
  next
    case False
    from ensureDir_step[OF False less.prems] obtain r1 s1 where
      rec: "(if dir \<noteq> [] then ensureDir (parent dir) s else (Inr (), s)) = (r1, s1)" and
      step: "case r1 of
              Inl e \<Rightarrow> r = Inl e \<and> s' = s1
            | Inr _ \<Rightarrow>
                (isl r \<and> trace s' = trace s1 \<and> exists s' = exists s1) \<or>
                (r = Inr () \<and> trace s' = trace s1 @ [Stat dir True] \<and> exists s' = (exists s1)(dir \<mapsto> True)) \<or>
                (r = Inr () \<and> trace s' = trace s1 @ [Stat dir False, Mkdir dir True] \<and>
                   exists s' = (exists s1)(dir \<mapsto> True)) \<or>
                (isl r \<and> trace s' = trace s1 @ [Stat dir False, Mkdir dir False] \<and> exists s' = exists s1)"
      by blast
    have "\<exists>evs1. trace s1 = trace s @ evs1 \<and> distinct (stats_of evs1) \<and> distinct (mkdirs_of evs1) \<and>
        set (mkdirs_of evs1) \<subseteq> set (stats_of evs1) \<and>
        (\<forall>p\<in>set (stats_of evs1). prefix p dir \<and> p \<noteq> dir \<and> exists s p \<noteq> Some True) \<and>
        (\<forall>p. exists s p = Some True \<longrightarrow> exists s1 p = Some True) \<and>
        (\<not> isl r1 \<longrightarrow> (\<forall>p\<in>set (stats_of evs1). exists s1 p = Some True))"
    proof (cases "dir = []")
      case True
      with rec show ?thesis by (intro exI[of _ "[]"]) auto
    next
      case nonroot: False
      with rec have "ensureDir (parent dir) s = (r1, s1)" by simp
      moreover have "length (parent dir) < length dir" using nonroot by (simp add: parent_def)
      ultimately obtain evs1 where
        e: "trace s1 = trace s @ evs1" "distinct (stats_of evs1)" "distinct (mkdirs_of evs1)"
        "set (mkdirs_of evs1) \<subseteq> set (stats_of evs1)"
        "\<forall>p\<in>set (stats_of evs1). prefix p (parent dir) \<and> exists s p \<noteq> Some True"
        "\<forall>p. exists s p = Some True \<longrightarrow> exists s1 p = Some True"
        "\<not> isl r1 \<longrightarrow> (\<forall>p\<in>set (stats_of evs1). exists s1 p = Some True)"
        using less.hyps[of "parent dir" s r1 s1] by blast
      have "prefix p dir \<and> p \<noteq> dir" if "prefix p (parent dir)" for p
      proof -
        have "prefix (parent dir) dir" unfolding parent_def by (rule prefixeq_butlast)
        moreover have "length (parent dir) < length dir" using nonroot by (simp add: parent_def)
        ultimately show ?thesis using that prefix_length_le[OF that] prefix_order.trans by fastforce
      qed
      with e show ?thesis by (intro exI[of _ evs1]) blast
    qed
    then obtain evs1 where
      e: "trace s1 = trace s @ evs1" "distinct (stats_of evs1)" "distinct (mkdirs_of evs1)"
        "set (mkdirs_of evs1) \<subseteq> set (stats_of evs1)"
        "\<forall>p\<in>set (stats_of evs1). prefix p dir \<and> p \<noteq> dir \<and> exists s p \<noteq> Some True"
        "\<forall>p. exists s p = Some True \<longrightarrow> exists s1 p = Some True"
        "\<not> isl r1 \<longrightarrow> (\<forall>p\<in>set (stats_of evs1). exists s1 p = Some True)"
      by blast
    show ?thesis
    proof (cases r1)
      case (Inl err)
      with step e show ?thesis by (intro exI[of _ evs1]) auto
    next
      case (Inr u)
      with step consider
          (a) "isl r" "trace s' = trace s1" "exists s' = exists s1"
        | (b) "r = Inr ()" "trace s' = trace s1 @ [Stat dir True]" "exists s' = (exists s1)(dir \<mapsto> True)"
        | (c) "r = Inr ()" "trace s' = trace s1 @ [Stat dir False, Mkdir dir True]"
              "exists s' = (exists s1)(dir \<mapsto> True)"
        | (d) "isl r" "trace s' = trace s1 @ [Stat dir False, Mkdir dir False]" "exists s' = exists s1"
        by auto
      then show ?thesis
      proof cases
        case a
        with e show ?thesis by (intro exI[of _ evs1]) auto
      next
        case b
        with e Inr False show ?thesis by (intro exI[of _ "evs1 @ [Stat dir True]"]) auto
      next
        case c
        with e Inr False show ?thesis
          by (intro exI[of _ "evs1 @ [Stat dir False, Mkdir dir True]"]) auto
      next
        case d
        with e Inr False show ?thesis
          by (intro exI[of _ "evs1 @ [Stat dir False, Mkdir dir False]"]) auto
      qed
    qed
  qed
qed


lemma log_info_result:
  "log_info args s = (r, s') \<Longrightarrow> r = Inr () \<and> s' = s\<lparr>trace := trace s @ [LogInfo args]\<rparr>"
  by (auto simp: log_info_def)

lemma disk_call_result:
  assumes "disk_call f ev s = (r, s')"
  shows "\<exists>L. s' = s\<lparr>disk := L, trace := trace s @ [ev (\<not> isl r)]\<rparr> \<and>
           (case r of Inl e \<Rightarrow> f (disk s) = Inl e \<and> L = disk s | Inr a \<Rightarrow> f (disk s) = Inr (a, L))"
  using assms by (auto simp: disk_call_def split: sum.splits)

lemma once_run_log_info: "log_info args s = (r, s') \<Longrightarrow> once_run s ok s'"
  by (rule once_run_quiet[where evs = "[LogInfo args]"]) (auto dest: log_info_result)

lemma once_run_fs_readFile: "fs_readFile p s = (r, s') \<Longrightarrow> once_run s ok s'"
  unfolding fs_readFile_def
  by (rule once_run_quiet[where evs = "[FsReadFile p (\<not> isl r)]"]) (auto dest: disk_call_result)

lemma once_run_dav_writeFile: "dav_writeFile p d s = (r, s') \<Longrightarrow> once_run s ok s'"
  unfolding dav_writeFile_def
  by (cases "davfs s")
     (auto dest!: dav_call_result intro: once_run_quiet[where evs = "[]"]
        once_run_quiet[where evs = "[WriteFile p d (\<not> isl r)]"])

lemma once_run_ensureDir: "ensureDir dir s = (r, s') \<Longrightarrow> once_run s (\<not> isl r) s'"
  unfolding once_run_def by (drule ensureDir_once) blast

lemma once_run_pushFile:
  assumes "pushFile localFile remoteFile s = (r, s')"
  shows "once_run s (\<not> isl r) s'"
  using assms unfolding pushFile_def
  by (elim once_run_bind)
     (auto intro: once_run_log_info once_run_ensureDir once_run_fs_readFile once_run_dav_writeFile)

lemma once_run_pushFiles:
  "pushFiles files s = (r, s') \<Longrightarrow> once_run s (\<not> isl r) s'"
proof (induction files arbitrary: s r s')
  case Nil
  then show ?case by (auto simp: io_return_def intro: once_run_quiet[where evs = "[]"])
next
  case (Cons f fs)
  from Cons.prems show ?case
    by (simp, elim once_run_bind) (auto intro: once_run_pushFile Cons.IH)
qed


lemma webdav_push_result:
  assumes "webdav_push globby s = (r, s')"
  shows "(isl r \<and> trace s' = trace s @ [LogInfo [''push to webdav''], Call ''globby'']) \<or>
         (\<exists>files r1 s1.
            pushFiles files
              (s\<lparr>trace := trace s @ [LogInfo [''push to webdav''], Call ''globby''], exists := Map.empty\<rparr>) = (r1, s1) \<and>
            ((isl r \<and> isl r1 \<and> s' = s1) \<or>
             (r = Inr () \<and> r1 = Inr () \<and> trace s' = trace s1 @ [LogInfo [''push done'']])))"
proof (cases "globby (rootPath s) (disk s)")
  case (Inl e)
  with assms show ?thesis
    by (auto simp: webdav_push_def io_bind_def log_info_def)
next
  case (Inr files)
  obtain r1 s1 where loop: "pushFiles files
      (s\<lparr>trace := trace s @ [LogInfo [''push to webdav''], Call ''globby''], exists := Map.empty\<rparr>) = (r1, s1)"
    by (cases "pushFiles files
      (s\<lparr>trace := trace s @ [LogInfo [''push to webdav''], Call ''globby''], exists := Map.empty\<rparr>)") auto
  with assms Inr have "(isl r \<and> isl r1 \<and> s' = s1) \<or>
             (r = Inr () \<and> r1 = Inr () \<and> trace s' = trace s1 @ [LogInfo [''push done'']])"
    by (cases r1) (auto simp: webdav_push_def io_bind_def log_info_def)
  with loop show ?thesis by blast
qed


lemma push_example_returns: "fst (webdav_push example_globby example_repo) = Inr ()"
  by code_simp

lemma push_example_trace:
  "trace (snd (webdav_push example_globby example_repo)) =
    [LogInfo [''push to webdav''], Call ''globby'',
     LogInfo [''push file: /profiles/main/a.json''], Stat [] True,
     Stat [''profiles''] True, Stat [''profiles'', ''main''] False,
     Mkdir [''profiles'', ''main''] True,
     FsReadFile [''tmp'', ''mirror'', ''profiles'', ''main'', ''a.json''] True,
     WriteFile [''profiles'', ''main'', ''a.json''] ''A'' True,
     LogInfo [''push file: /profiles/main/b.json''],
     FsReadFile [''tmp'', ''mirror'', ''profiles'', ''main'', ''b.json''] True,
     WriteFile [''profiles'', ''main'', ''b.json''] ''B'' True,
     LogInfo [''push done'']]"
  by code_simp

text \<open>
  C1. During one \<open>push\<close> every remote directory path is probed by \<open>stat\<close> at most once
  and created by \<open>mkdir\<close> at most once, whether the push returns or is rejected. Once a
  path is marked \<open>true\<close> in the cache, the rest of the loop over the files issues no
  \<open>stat\<close> and no \<open>mkdir\<close> for it and the mark stays. Every normal return of
  \<open>ensureDir\<close> leaves its path marked \<open>true\<close>, whether the probe succeeded or the
  directory was created.
\<close>

theorem push_probes_each_directory_once:
  "(webdav_push globby s = (r, s') \<longrightarrow>
      (\<exists>evs. trace s' = trace s @ evs \<and> distinct (stats_of evs) \<and> distinct (mkdirs_of evs))) \<and>
   (exists t p = Some True \<and> pushFiles files t = (r2, t') \<longrightarrow>
      exists t' p = Some True \<and>
      (\<exists>evs. trace t' = trace t @ evs \<and> p \<notin> set (stats_of evs) \<and> p \<notin> set (mkdirs_of evs))) \<and>
   (ensureDir dir u = (Inr (), u') \<longrightarrow> exists u' dir = Some True)"
proof (intro conjI impI)
  assume run: "webdav_push globby s = (r, s')"
  from webdav_push_result[OF run] show
    "\<exists>evs. trace s' = trace s @ evs \<and> distinct (stats_of evs) \<and> distinct (mkdirs_of evs)"
  proof (elim disjE exE conjE)
    assume "trace s' = trace s @ [LogInfo [''push to webdav''], Call ''globby'']"
    then show ?thesis by (intro exI[of _ "[LogInfo [''push to webdav''], Call ''globby'']"]) simp
  next
    fix files' r1 s1
    assume loop: "pushFiles files'
        (s\<lparr>trace := trace s @ [LogInfo [''push to webdav''], Call ''globby''], exists := Map.empty\<rparr>) = (r1, s1)"
      and "s' = s1"
    from once_run_pushFiles[OF loop] obtain evs where
      "trace s1 = (trace s @ [LogInfo [''push to webdav''], Call ''globby'']) @ evs"
      "distinct (stats_of evs)" "distinct (mkdirs_of evs)"
      unfolding once_run_def by auto
    with \<open>s' = s1\<close> show ?thesis
      by (intro exI[of _ "[LogInfo [''push to webdav''], Call ''globby''] @ evs"]) simp
  next
    fix files' r1 s1
    assume loop: "pushFiles files'
        (s\<lparr>trace := trace s @ [LogInfo [''push to webdav''], Call ''globby''], exists := Map.empty\<rparr>) = (r1, s1)"
      and fin: "trace s' = trace s1 @ [LogInfo [''push done'']]"
    from once_run_pushFiles[OF loop] obtain evs where
      "trace s1 = (trace s @ [LogInfo [''push to webdav''], Call ''globby'']) @ evs"
      "distinct (stats_of evs)" "distinct (mkdirs_of evs)"
      unfolding once_run_def by auto
    with fin show ?thesis
      by (intro exI[of _ "[LogInfo [''push to webdav''], Call ''globby''] @ evs @ [LogInfo [''push done'']]"])
        simp
  qed
next
  assume a: "exists t p = Some True \<and> pushFiles files t = (r2, t')"
  then have hit: "exists t p = Some True" and loop: "pushFiles files t = (r2, t')" by simp_all
  from once_run_pushFiles[OF loop] obtain evs where
    e: "trace t' = trace t @ evs" "set (mkdirs_of evs) \<subseteq> set (stats_of evs)"
       "\<forall>p\<in>set (stats_of evs). exists t p \<noteq> Some True"
       "\<forall>p. exists t p = Some True \<longrightarrow> exists t' p = Some True"
    unfolding once_run_def by auto
  from e hit show "exists t' p = Some True" by blast
  from e hit show "\<exists>evs. trace t' = trace t @ evs \<and> p \<notin> set (stats_of evs) \<and> p \<notin> set (mkdirs_of evs)"
    by (intro exI[of _ evs]) blast
next
  assume "ensureDir dir u = (Inr (), u')"
  from ensureDir_once[OF this] show "exists u' dir = Some True" by auto
qed


theorem push_probes_each_directory_once_witness:
  "fst (webdav_push example_globby example_repo) = Inr () \<and>
   (\<exists>evs. trace (snd (webdav_push example_globby example_repo)) = trace example_repo @ evs \<and>
      distinct (stats_of evs) \<and> distinct (mkdirs_of evs)) \<and>
   exists example_cached [''profiles''] = Some True \<and>
   exists (snd (pushFiles [[''profiles'', ''main'', ''a.json'']] example_cached)) [''profiles''] = Some True \<and>
   (\<exists>evs. trace (snd (pushFiles [[''profiles'', ''main'', ''a.json'']] example_cached)) =
        trace example_cached @ evs \<and>
      [''profiles''] \<notin> set (stats_of evs) \<and> [''profiles''] \<notin> set (mkdirs_of evs)) \<and>
   fst (ensureDir [''profiles'', ''main''] example_repo) = Inr () \<and>
   exists (snd (ensureDir [''profiles'', ''main''] example_repo)) [''profiles'', ''main''] = Some True"
proof -
  have a: "webdav_push example_globby example_repo =
      (Inr (), snd (webdav_push example_globby example_repo))"
    using push_example_returns by (simp add: prod_eq_iff)
  have b: "exists example_cached [''profiles''] = Some True"
    by (simp add: example_cached_def)
  have c: "pushFiles [[''profiles'', ''main'', ''a.json'']] example_cached =
      (fst (pushFiles [[''profiles'', ''main'', ''a.json'']] example_cached),
       snd (pushFiles [[''profiles'', ''main'', ''a.json'']] example_cached))"
    by simp
  have d: "fst (ensureDir [''profiles'', ''main''] example_repo) = Inr ()"
    by code_simp
  then have e: "ensureDir [''profiles'', ''main''] example_repo =
      (Inr (), snd (ensureDir [''profiles'', ''main''] example_repo))"
    by (simp add: prod_eq_iff)
  from push_probes_each_directory_once[where globby = example_globby and s = example_repo
      and r = "Inr ()" and s' = "snd (webdav_push example_globby example_repo)"
      and t = example_cached and p = "[''profiles'']"
      and files = "[[''profiles'', ''main'', ''a.json'']]"
      and ?r2.0 = "fst (pushFiles [[''profiles'', ''main'', ''a.json'']] example_cached)"
      and t' = "snd (pushFiles [[''profiles'', ''main'', ''a.json'']] example_cached)"
      and dir = "[''profiles'', ''main'']" and u = example_repo
      and u' = "snd (ensureDir [''profiles'', ''main''] example_repo)"]
    a b c d e push_example_returns
  show ?thesis by blast
qed

section \<open>Proofs: ancestors before descendants\<close>

lemma ancestors_first_append:
  "ancestors_first C (xs @ ys) = (ancestors_first C xs \<and> ancestors_first (C \<union> \<Union> (settles ` set xs)) ys)"
  by (induction xs arbitrary: C) (auto simp: Un_assoc)

lemma settles_iff: "q \<in> settles e \<longleftrightarrow> e = Stat q True \<or> e = Mkdir q True"
  by (cases e) auto

lemma ancestors_first_nth:
  "ancestors_first C evs \<Longrightarrow> i < length evs \<Longrightarrow> target (evs ! i) = Some p \<Longrightarrow> strict_prefix q p \<Longrightarrow>
     q \<in> C \<or> (\<exists>j<i. evs ! j = Stat q True \<or> evs ! j = Mkdir q True)"
proof (induction evs arbitrary: C i)
  case Nil
  then show ?case by simp
next
  case (Cons e es)
  show ?case
  proof (cases i)
    case 0
    with Cons.prems show ?thesis by auto
  next
    case (Suc k)
    with Cons.prems have "ancestors_first (C \<union> settles e) es" "k < length es" "target (es ! k) = Some p"
      by auto
    from Cons.IH[OF this Cons.prems(4)] have
      "q \<in> C \<union> settles e \<or> (\<exists>j<k. es ! j = Stat q True \<or> es ! j = Mkdir q True)" .
    moreover have "q \<in> C \<or> (\<exists>j<i. (e # es) ! j = Stat q True \<or> (e # es) ! j = Mkdir q True)"
      if "q \<in> C \<union> settles e"
    proof (cases "q \<in> C")
      case False
      with that have "(e # es) ! 0 = Stat q True \<or> (e # es) ! 0 = Mkdir q True"
        by (simp add: settles_iff)
      moreover have "0 < i" using Suc by simp
      ultimately show ?thesis by blast
    qed simp
    moreover have "\<exists>j<i. (e # es) ! j = Stat q True \<or> (e # es) ! j = Mkdir q True"
      if "j < k" "es ! j = Stat q True \<or> es ! j = Mkdir q True" for j
    proof -
      from that Suc have "Suc j < i" "(e # es) ! Suc j = Stat q True \<or> (e # es) ! Suc j = Mkdir q True"
        by auto
      then show ?thesis by blast
    qed
    ultimately show ?thesis by blast
  qed
qed

lemma ordered_run_trans:
  assumes "ordered_run s True s1" and "ordered_run s1 ok s'"
  shows "ordered_run s ok s'"
  unfolding ordered_run_def
proof
  assume cl: "closed (known s)"
  with assms(1) obtain evs1 where 1: "trace s1 = trace s @ evs1" "ancestors_first (known s) evs1"
    "known s1 = known s \<union> \<Union> (settles ` set evs1)" "closed (known s1)"
    unfolding ordered_run_def by blast
  with assms(2) obtain evs2 where 2: "trace s' = trace s1 @ evs2" "ancestors_first (known s1) evs2"
    "ok \<longrightarrow> known s' = known s1 \<union> \<Union> (settles ` set evs2) \<and> closed (known s')"
    unfolding ordered_run_def by blast
  show "\<exists>evs. trace s' = trace s @ evs \<and> ancestors_first (known s) evs \<and>
           (ok \<longrightarrow> known s' = known s \<union> \<Union> (settles ` set evs) \<and> closed (known s'))"
    using 1 2 by (intro exI[of _ "evs1 @ evs2"]) (auto simp: ancestors_first_append)
qed

lemma ordered_run_quiet:
  assumes "trace s' = trace s @ evs" "\<forall>e\<in>set evs. target e = None \<and> settles e = {}" "exists s' = exists s"
  shows "ordered_run s ok s'"
proof -
  have "ancestors_first C evs" for C
    using assms(2) by (induction evs arbitrary: C) auto
  moreover have "known s' = known s" using assms(3) by (simp add: known_def)
  moreover have "\<Union> (settles ` set evs) = {}" using assms(2) by auto
  ultimately show ?thesis unfolding ordered_run_def using assms(1) by (intro impI exI[of _ evs]) simp
qed

lemma ordered_run_bind:
  assumes run: "io_bind m f s = (r, s')"
    and m: "\<And>r1 s1. m s = (r1, s1) \<Longrightarrow> ordered_run s (\<not> isl r1) s1"
    and f: "\<And>a s1. m s = (Inr a, s1) \<Longrightarrow> f a s1 = (r, s') \<Longrightarrow> ordered_run s1 (\<not> isl r) s'"
  shows "ordered_run s (\<not> isl r) s'"
proof (cases "m s")
  case (Pair r1 s1)
  show ?thesis
  proof (cases r1)
    case (Inl e)
    with Pair run have "r = Inl e" "s' = s1" by (simp_all add: io_bind_def)
    with m[OF Pair] Inl show ?thesis by simp
  next
    case (Inr a)
    with Pair run have "f a s1 = (r, s')" by (simp add: io_bind_def)
    with m[OF Pair] f[of a s1] Pair Inr show ?thesis by (auto intro: ordered_run_trans)
  qed
qed

lemma strict_prefix_parent: "strict_prefix q dir \<Longrightarrow> prefix q (parent dir)"
  by (cases dir rule: rev_cases) (auto simp: parent_def strict_prefix_def)

lemma closed_insert:
  assumes "closed C" "dir = [] \<or> parent dir \<in> C"
  shows "closed (insert dir C)"
  unfolding closed_def
proof (intro ballI allI impI)
  fix p q assume p: "p \<in> insert dir C" and q: "prefix q p"
  show "q \<in> insert dir C"
  proof (cases "p = dir")
    case False
    with p q assms(1) show ?thesis unfolding closed_def by blast
  next
    case True
    show ?thesis
    proof (cases "q = dir")
      case False
      with True q have sp: "strict_prefix q dir" by (simp add: strict_prefix_def)
      then have "dir \<noteq> []" by auto
      with assms(2) have "parent dir \<in> C" by simp
      with strict_prefix_parent[OF sp] assms(1) show ?thesis unfolding closed_def by blast
    qed simp
  qed
qed

lemma ensureDir_ordered:
  "closed (known s) \<Longrightarrow> ensureDir dir s = (r, s') \<Longrightarrow>
     \<exists>evs. trace s' = trace s @ evs \<and> ancestors_first (known s) evs \<and>
        (\<not> isl r \<longrightarrow> known s' = known s \<union> \<Union> (settles ` set evs) \<and> closed (known s') \<and> dir \<in> known s')"
proof (induction "length dir" arbitrary: dir s r s' rule: less_induct)
  case less
  show ?case
  proof (cases "exists s dir = Some True")
    case True
    with less.prems ensureDir_hit[OF True] have "r = Inr ()" "s' = s" by auto
    with True less.prems(1) show ?thesis by (intro exI[of _ "[]"]) (simp add: known_def)
  next
    case False
    from ensureDir_step[OF False less.prems(2)] obtain r1 s1 where
      rec: "(if dir \<noteq> [] then ensureDir (parent dir) s else (Inr (), s)) = (r1, s1)" and
      step: "case r1 of
              Inl e \<Rightarrow> r = Inl e \<and> s' = s1
            | Inr _ \<Rightarrow>
                (isl r \<and> trace s' = trace s1 \<and> exists s' = exists s1) \<or>
                (r = Inr () \<and> trace s' = trace s1 @ [Stat dir True] \<and> exists s' = (exists s1)(dir \<mapsto> True)) \<or>
                (r = Inr () \<and> trace s' = trace s1 @ [Stat dir False, Mkdir dir True] \<and>
                   exists s' = (exists s1)(dir \<mapsto> True)) \<or>
                (isl r \<and> trace s' = trace s1 @ [Stat dir False, Mkdir dir False] \<and> exists s' = exists s1)"
      by blast
    have "\<exists>evs1. trace s1 = trace s @ evs1 \<and> ancestors_first (known s) evs1 \<and>
        (\<not> isl r1 \<longrightarrow> known s1 = known s \<union> \<Union> (settles ` set evs1) \<and> closed (known s1) \<and>
           (dir = [] \<or> parent dir \<in> known s1))"
    proof (cases "dir = []")
      case True
      with rec less.prems(1) show ?thesis by (intro exI[of _ "[]"]) auto
    next
      case nonroot: False
      then have "length (parent dir) < length dir" by (simp add: parent_def)
      moreover from nonroot rec have "ensureDir (parent dir) s = (r1, s1)" by simp
      ultimately show ?thesis using less.hyps[of "parent dir" s r1 s1] less.prems(1) by blast
    qed
    then obtain evs1 where e: "trace s1 = trace s @ evs1" "ancestors_first (known s) evs1"
      "\<not> isl r1 \<longrightarrow> known s1 = known s \<union> \<Union> (settles ` set evs1) \<and> closed (known s1) \<and>
           (dir = [] \<or> parent dir \<in> known s1)"
      by blast
    show ?thesis
    proof (cases r1)
      case (Inl err)
      with step e show ?thesis by (intro exI[of _ evs1]) auto
    next
      case (Inr u)
      with e have k: "known s1 = known s \<union> \<Union> (settles ` set evs1)" "closed (known s1)"
        "dir = [] \<or> parent dir \<in> known s1" by auto
      have anc: "\<forall>q. strict_prefix q dir \<longrightarrow> q \<in> known s \<union> \<Union> (settles ` set evs1)"
      proof (intro allI impI)
        fix q assume sp: "strict_prefix q dir"
        then have "dir \<noteq> []" by auto
        with k(3) have "parent dir \<in> known s1" by simp
        with strict_prefix_parent[OF sp] k(2) have "q \<in> known s1" unfolding closed_def by blast
        with k(1) show "q \<in> known s \<union> \<Union> (settles ` set evs1)" by simp
      qed
      have ins: "exists s' = (exists s1)(dir \<mapsto> True) \<Longrightarrow> known s' = insert dir (known s1)"
        by (auto simp: known_def)
      from Inr step consider
          (a) "isl r" "trace s' = trace s1" "exists s' = exists s1"
        | (b) "r = Inr ()" "trace s' = trace s1 @ [Stat dir True]" "exists s' = (exists s1)(dir \<mapsto> True)"
        | (c) "r = Inr ()" "trace s' = trace s1 @ [Stat dir False, Mkdir dir True]"
              "exists s' = (exists s1)(dir \<mapsto> True)"
        | (d) "isl r" "trace s' = trace s1 @ [Stat dir False, Mkdir dir False]" "exists s' = exists s1"
        by auto
      then show ?thesis
      proof cases
        case a
        with e show ?thesis by (intro exI[of _ evs1]) auto
      next
        case b
        with e k anc ins closed_insert[OF k(2,3)] show ?thesis
          by (intro exI[of _ "evs1 @ [Stat dir True]"]) (auto simp: ancestors_first_append)
      next
        case c
        with e k anc ins closed_insert[OF k(2,3)] show ?thesis
          by (intro exI[of _ "evs1 @ [Stat dir False, Mkdir dir True]"]) (auto simp: ancestors_first_append)
      next
        case d
        with e k anc show ?thesis
          by (intro exI[of _ "evs1 @ [Stat dir False, Mkdir dir False]"]) (auto simp: ancestors_first_append)
      qed
    qed
  qed
qed


lemma ordered_run_log_info: "log_info args s = (r, s') \<Longrightarrow> ordered_run s ok s'"
  by (rule ordered_run_quiet[where evs = "[LogInfo args]"]) (auto dest: log_info_result)

lemma ordered_run_fs_readFile: "fs_readFile p s = (r, s') \<Longrightarrow> ordered_run s ok s'"
  unfolding fs_readFile_def
  by (rule ordered_run_quiet[where evs = "[FsReadFile p (\<not> isl r)]"]) (auto dest: disk_call_result)

lemma ordered_run_dav_writeFile: "dav_writeFile p d s = (r, s') \<Longrightarrow> ordered_run s ok s'"
  unfolding dav_writeFile_def
  by (cases "davfs s")
     (auto dest!: dav_call_result intro: ordered_run_quiet[where evs = "[]"]
        ordered_run_quiet[where evs = "[WriteFile p d (\<not> isl r)]"])

lemma ordered_run_ensureDir: "ensureDir dir s = (r, s') \<Longrightarrow> ordered_run s (\<not> isl r) s'"
  unfolding ordered_run_def using ensureDir_ordered[of s dir r s'] by blast

lemma ordered_run_pushFile:
  assumes "pushFile localFile remoteFile s = (r, s')"
  shows "ordered_run s (\<not> isl r) s'"
  using assms unfolding pushFile_def
  by (elim ordered_run_bind)
     (auto intro: ordered_run_log_info ordered_run_ensureDir ordered_run_fs_readFile
        ordered_run_dav_writeFile)

lemma ordered_run_pushFiles:
  "pushFiles files s = (r, s') \<Longrightarrow> ordered_run s (\<not> isl r) s'"
proof (induction files arbitrary: s r s')
  case Nil
  then show ?case by (auto simp: io_return_def intro: ordered_run_quiet[where evs = "[]"])
next
  case (Cons f fs)
  from Cons.prems show ?case
    by (simp, elim ordered_run_bind) (auto intro: ordered_run_pushFile Cons.IH)
qed


text \<open>
  C2. In the requests of one \<open>push\<close>, every \<open>stat\<close> and every \<open>mkdir\<close> for a path comes
  after each proper ancestor of that path has been settled in the same push, by a
  \<open>stat\<close> that resolved or a \<open>mkdir\<close> that was performed, at any depth. The same holds
  for one call of \<open>ensureDir\<close> on a cache that is closed under ancestors, where an
  ancestor may also be settled by being marked in the cache.
\<close>

theorem ensureDir_settles_ancestors_first:
  "(webdav_push globby s = (r, s') \<longrightarrow>
      (\<exists>evs. trace s' = trace s @ evs \<and>
         (\<forall>i<length evs. \<forall>p. target (evs ! i) = Some p \<longrightarrow>
            (\<forall>q. strict_prefix q p \<longrightarrow> (\<exists>j<i. evs ! j = Stat q True \<or> evs ! j = Mkdir q True))))) \<and>
   (closed (known t) \<and> ensureDir dir t = (r2, t') \<longrightarrow>
      (\<exists>evs. trace t' = trace t @ evs \<and>
         (\<forall>i<length evs. \<forall>p. target (evs ! i) = Some p \<longrightarrow>
            (\<forall>q. strict_prefix q p \<longrightarrow>
               exists t q = Some True \<or> (\<exists>j<i. evs ! j = Stat q True \<or> evs ! j = Mkdir q True)))))"
proof (intro conjI impI)
  assume run: "webdav_push globby s = (r, s')"
  let ?pre = "[LogInfo [''push to webdav''], Call ''globby'']"
  have key: "\<exists>evs. trace s' = trace s @ evs \<and> ancestors_first {} evs"
    using webdav_push_result[OF run]
  proof (elim disjE exE conjE)
    assume "trace s' = trace s @ ?pre"
    then show ?thesis by (intro exI[of _ ?pre]) simp
  next
    fix files r1 s1
    assume loop: "pushFiles files (s\<lparr>trace := trace s @ ?pre, exists := Map.empty\<rparr>) = (r1, s1)"
      and "s' = s1"
    from ordered_run_pushFiles[OF loop] obtain evs where
      "trace s1 = (trace s @ ?pre) @ evs" "ancestors_first {} evs"
      unfolding ordered_run_def by (auto simp: known_def closed_def)
    with \<open>s' = s1\<close> show ?thesis
      by (intro exI[of _ "?pre @ evs"]) (simp add: ancestors_first_append)
  next
    fix files r1 s1
    assume loop: "pushFiles files (s\<lparr>trace := trace s @ ?pre, exists := Map.empty\<rparr>) = (r1, s1)"
      and fin: "trace s' = trace s1 @ [LogInfo [''push done'']]"
    from ordered_run_pushFiles[OF loop] obtain evs where
      "trace s1 = (trace s @ ?pre) @ evs" "ancestors_first {} evs"
      unfolding ordered_run_def by (auto simp: known_def closed_def)
    with fin show ?thesis
      by (intro exI[of _ "?pre @ evs @ [LogInfo [''push done'']]"]) (simp add: ancestors_first_append)
  qed
  then obtain evs where evs: "trace s' = trace s @ evs" "ancestors_first {} evs" by blast
  have "\<exists>j<i. evs ! j = Stat q True \<or> evs ! j = Mkdir q True"
    if "i < length evs" "target (evs ! i) = Some p" "strict_prefix q p" for i p q
    using ancestors_first_nth[OF evs(2) that] by simp
  with evs(1) show "\<exists>evs. trace s' = trace s @ evs \<and>
         (\<forall>i<length evs. \<forall>p. target (evs ! i) = Some p \<longrightarrow>
            (\<forall>q. strict_prefix q p \<longrightarrow> (\<exists>j<i. evs ! j = Stat q True \<or> evs ! j = Mkdir q True)))"
    by blast
next
  assume a: "closed (known t) \<and> ensureDir dir t = (r2, t')"
  then have "closed (known t)" "ensureDir dir t = (r2, t')" by simp_all
  from ensureDir_ordered[OF this] obtain evs where
    evs: "trace t' = trace t @ evs" "ancestors_first (known t) evs" by blast
  have "exists t q = Some True \<or> (\<exists>j<i. evs ! j = Stat q True \<or> evs ! j = Mkdir q True)"
    if "i < length evs" "target (evs ! i) = Some p" "strict_prefix q p" for i p q
    using ancestors_first_nth[OF evs(2) that] by (simp add: known_def)
  with evs(1) show "\<exists>evs. trace t' = trace t @ evs \<and>
         (\<forall>i<length evs. \<forall>p. target (evs ! i) = Some p \<longrightarrow>
            (\<forall>q. strict_prefix q p \<longrightarrow>
               exists t q = Some True \<or> (\<exists>j<i. evs ! j = Stat q True \<or> evs ! j = Mkdir q True)))"
    by blast
qed

theorem ensureDir_settles_ancestors_first_witness:
  "fst (webdav_push example_globby example_repo) = Inr () \<and>
   (\<exists>evs. trace (snd (webdav_push example_globby example_repo)) = trace example_repo @ evs \<and>
      (\<forall>i<length evs. \<forall>p. target (evs ! i) = Some p \<longrightarrow>
         (\<forall>q. strict_prefix q p \<longrightarrow> (\<exists>j<i. evs ! j = Stat q True \<or> evs ! j = Mkdir q True)))) \<and>
   closed (known example_repo) \<and>
   fst (ensureDir [''profiles'', ''main''] example_repo) = Inr () \<and>
   (\<exists>evs. trace (snd (ensureDir [''profiles'', ''main''] example_repo)) = trace example_repo @ evs \<and>
      (\<forall>i<length evs. \<forall>p. target (evs ! i) = Some p \<longrightarrow>
         (\<forall>q. strict_prefix q p \<longrightarrow>
            exists example_repo q = Some True \<or>
            (\<exists>j<i. evs ! j = Stat q True \<or> evs ! j = Mkdir q True))))"
proof -
  have a: "webdav_push example_globby example_repo =
      (Inr (), snd (webdav_push example_globby example_repo))"
    using push_example_returns by (simp add: prod_eq_iff)
  have b: "closed (known example_repo)"
    by (simp add: closed_def known_def example_repo_def)
  have d: "fst (ensureDir [''profiles'', ''main''] example_repo) = Inr ()"
    by code_simp
  then have e: "ensureDir [''profiles'', ''main''] example_repo =
      (Inr (), snd (ensureDir [''profiles'', ''main''] example_repo))"
    by (simp add: prod_eq_iff)
  from ensureDir_settles_ancestors_first[where globby = example_globby and s = example_repo
      and r = "Inr ()" and s' = "snd (webdav_push example_globby example_repo)"
      and t = example_repo and dir = "[''profiles'', ''main'']" and ?r2.0 = "Inr ()"
      and t' = "snd (ensureDir [''profiles'', ''main''] example_repo)"]
    a b d e push_example_returns
  show ?thesis by blast
qed

lemma ensureDir_bound:
  "ensureDir dir s = (r, s') \<Longrightarrow> \<exists>evs. trace s' = trace s @ evs \<and> length evs \<le> 2 * Suc (length dir)"
proof (induction "length dir" arbitrary: dir s r s' rule: less_induct)
  case less
  show ?case
  proof (cases "exists s dir = Some True")
    case True
    with less.prems ensureDir_hit[OF True] show ?thesis by auto
  next
    case False
    from ensureDir_step[OF False less.prems] obtain r1 s1 where
      rec: "(if dir \<noteq> [] then ensureDir (parent dir) s else (Inr (), s)) = (r1, s1)" and
      step: "case r1 of
              Inl e \<Rightarrow> r = Inl e \<and> s' = s1
            | Inr _ \<Rightarrow>
                (isl r \<and> trace s' = trace s1 \<and> exists s' = exists s1) \<or>
                (r = Inr () \<and> trace s' = trace s1 @ [Stat dir True] \<and> exists s' = (exists s1)(dir \<mapsto> True)) \<or>
                (r = Inr () \<and> trace s' = trace s1 @ [Stat dir False, Mkdir dir True] \<and>
                   exists s' = (exists s1)(dir \<mapsto> True)) \<or>
                (isl r \<and> trace s' = trace s1 @ [Stat dir False, Mkdir dir False] \<and> exists s' = exists s1)"
      by blast
    have "\<exists>evs1. trace s1 = trace s @ evs1 \<and> length evs1 \<le> 2 * length dir"
    proof (cases "dir = []")
      case True
      with rec show ?thesis by auto
    next
      case nonroot: False
      then have "length (parent dir) < length dir" by (simp add: parent_def)
      moreover from nonroot rec have "ensureDir (parent dir) s = (r1, s1)" by simp
      ultimately obtain evs1 where "trace s1 = trace s @ evs1" "length evs1 \<le> 2 * Suc (length (parent dir))"
        using less.hyps[of "parent dir" s r1 s1] by blast
      moreover have "Suc (length (parent dir)) = length dir" using nonroot by (simp add: parent_def)
      ultimately show ?thesis by auto
    qed
    then obtain evs1 where e: "trace s1 = trace s @ evs1" "length evs1 \<le> 2 * length dir" by blast
    from step consider "trace s' = trace s1" | "trace s' = trace s1 @ [Stat dir True]"
      | b where "trace s' = trace s1 @ [Stat dir False, Mkdir dir b]"
      by (cases r1) auto
    then show ?thesis
    proof cases
      case 1
      with e show ?thesis by auto
    next
      case 2
      with e show ?thesis by auto
    next
      case 3
      with e show ?thesis by auto
    qed
  qed
qed


text \<open>
  C9. \<open>ensureDir\<close> returns on every path: its recursion is on the parent, which is
  strictly shorter than any path but the root, it does not recurse at the root, and on a
  path marked \<open>true\<close> in the cache it returns at once with the state unchanged. One call
  issues at most two requests for each of the path's prefixes, and none for another path.
\<close>

theorem ensureDir_terminates:
  "(dir \<noteq> [] \<longrightarrow> length (parent dir) < length dir) \<and>
   (exists s dir = Some True \<longrightarrow> ensureDir dir s = (Inr (), s)) \<and>
   (\<exists>r s' evs. ensureDir dir s = (r, s') \<and> trace s' = trace s @ evs \<and>
      length evs \<le> 2 * Suc (length dir) \<and> (\<forall>p\<in>set (stats_of evs). prefix p dir))"
proof (intro conjI impI)
  show "length (parent dir) < length dir" if "dir \<noteq> []" using that by (simp add: parent_def)
  show "ensureDir dir s = (Inr (), s)" if "exists s dir = Some True" using that by (rule ensureDir_hit)
  obtain r s' where run: "ensureDir dir s = (r, s')" by (cases "ensureDir dir s") auto
  from ensureDir_bound[OF run] obtain evs where a: "trace s' = trace s @ evs" "length evs \<le> 2 * Suc (length dir)"
    by blast
  from ensureDir_once[OF run] obtain evs' where b: "trace s' = trace s @ evs'" "\<forall>p\<in>set (stats_of evs'). prefix p dir"
    by blast
  from a b have "evs' = evs" by simp
  with run a b show "\<exists>r s' evs. ensureDir dir s = (r, s') \<and> trace s' = trace s @ evs \<and>
      length evs \<le> 2 * Suc (length dir) \<and> (\<forall>p\<in>set (stats_of evs). prefix p dir)"
    by blast
qed


theorem ensureDir_terminates_witness:
  "[''profiles''] \<noteq> [] \<and> length (parent [''profiles'']) < length [''profiles''] \<and>
   exists example_cached [''profiles''] = Some True \<and>
   ensureDir [''profiles''] example_cached = (Inr (), example_cached) \<and>
   (\<exists>r s' evs. ensureDir [''profiles''] example_cached = (r, s') \<and>
      trace s' = trace example_cached @ evs \<and> length evs \<le> 2 * Suc (length [''profiles'']) \<and>
      (\<forall>p\<in>set (stats_of evs). prefix p [''profiles'']))"
proof -
  have "exists example_cached [''profiles''] = Some True"
    by (simp add: example_cached_def)
  with ensureDir_terminates[of "[''profiles'']" example_cached] show ?thesis
    by simp
qed

section \<open>Proofs: the Git backend\<close>

lemma git_call_result:
  assumes "git_call f ev s = (r, s')"
  shows "\<exists>g. f (git s) (disk s) (repository s) = (r, g) \<and>
           s' = s\<lparr>trace := trace s @ [ev (\<not> isl r)], repository := g\<rparr>"
  using assms by (auto simp: git_call_def split: prod.splits)

lemma io_bind_Inr:
  assumes "io_bind m f s = (Inr a, s')"
  shows "\<exists>b s1. m s = (Inr b, s1) \<and> f b s1 = (Inr a, s')"
  using assms by (auto simp: io_bind_def split: prod.splits sum.splits)

lemma io_bind_cases:
  assumes "io_bind m f s = (r, s')"
  obtains (rejected) e where "m s = (Inl e, s')" "r = Inl e"
    | (resolved) b s1 where "m s = (Inr b, s1)" "f b s1 = (r, s')"
  using assms by (auto simp: io_bind_def split: prod.splits sum.splits)

lemma stage_and_inspect_result:
  assumes "io_bind (git_add ''.'') (\<lambda>_. git_status) s = (Inr st, s1)"
  shows "\<exists>s0. git_add ''.'' s = (Inr (), s0) \<and> git_status s0 = (Inr st, s1)"
  using assms by (auto simp: io_bind_def split: prod.splits sum.splits)

lemma logs_no_error_refl: "logs_no_error s s"
  by (simp add: logs_no_error_def)

lemma logs_no_error_initialized: "logs_no_error s (s\<lparr>initialized := b\<rparr>)"
  by (simp add: logs_no_error_def)

lemma logs_no_error_trans: "logs_no_error s s1 \<Longrightarrow> logs_no_error s1 s' \<Longrightarrow> logs_no_error s s'"
  unfolding logs_no_error_def by (elim exE conjE, rule_tac x = "evs @ evsa" in exI) auto

lemma logs_no_error_bind:
  assumes run: "io_bind m f s = (r, s')"
    and m: "\<And>r1 s1. m s = (r1, s1) \<Longrightarrow> logs_no_error s s1"
    and f: "\<And>a s1. m s = (Inr a, s1) \<Longrightarrow> f a s1 = (r, s') \<Longrightarrow> logs_no_error s1 s'"
  shows "logs_no_error s s'"
  using run
proof (cases rule: io_bind_cases)
  case (rejected e)
  then show ?thesis using m by blast
next
  case (resolved b s1)
  then show ?thesis using m f logs_no_error_trans by blast
qed

lemma logs_no_error_one:
  assumes "trace s' = trace s @ [e]" "\<forall>args. e \<noteq> LogError args"
  shows "logs_no_error s s'"
  unfolding logs_no_error_def using assms by (intro exI[of _ "[e]"]) auto

lemma logs_no_error_git_call:
  "git_call f ev s = (r, s') \<Longrightarrow> \<forall>b args. ev b \<noteq> LogError args \<Longrightarrow> logs_no_error s s'"
  by (drule git_call_result) (auto intro: logs_no_error_one)

lemma logs_no_error_disk_call:
  "disk_call f ev s = (r, s') \<Longrightarrow> \<forall>b args. ev b \<noteq> LogError args \<Longrightarrow> logs_no_error s s'"
  by (drule disk_call_result) (auto intro: logs_no_error_one)

lemma logs_no_error_log_info: "log_info args s = (r, s') \<Longrightarrow> logs_no_error s s'"
  by (auto simp: log_info_def intro: logs_no_error_one)

lemma logs_no_error_exists_util: "exists_util p s = (r, s') \<Longrightarrow> logs_no_error s s'"
  by (auto simp: exists_util_def intro: logs_no_error_one)

lemma logs_no_error_git_push: "git_push type profileName s = (r, s') \<Longrightarrow> logs_no_error s s'"
  unfolding git_push_def git_add_def git_status_def git_commit_def Let_def
  by (elim logs_no_error_bind)
     (auto intro: logs_no_error_git_call logs_no_error_log_info elim!: logs_no_error_bind
        split: if_splits)

lemma git_pull_true: "git_pull s = (Inr pulled, s') \<Longrightarrow> pulled"
  unfolding git_pull_def
  by (auto dest!: io_bind_Inr simp: io_return_def)

lemma logs_no_error_git_pull: "git_pull s = (r, s') \<Longrightarrow> logs_no_error s s'"
  unfolding git_pull_def fse_ensureDir_def git_cwd_def git_checkIsRepo_def git_init_def
  apply (elim logs_no_error_bind)
         apply (auto intro: logs_no_error_git_call logs_no_error_log_info logs_no_error_disk_call
      logs_no_error_refl elim!: logs_no_error_bind simp: io_return_def split: if_splits)
  done


lemma make_dirs_creates: "make_dirs p L = Inr ((), L') \<Longrightarrow> node_at L' p = Some LDir"
proof (induction p L arbitrary: L' rule: make_dirs.induct)
  case (1 p L)
  from "1.prems" show ?case
    by (subst (asm) make_dirs.simps)
       (auto simp: node_at_def split: option.splits lnode.splits sum.splits if_splits)
qed

lemma git_push_returns:
  assumes "git_push type profileName s = (Inr (), s')"
  shows "disk s' = disk s \<and> rootPath s' = rootPath s \<and>
         (trace s' = trace s @ [GitAdd ''.'' True, GitStatus True, LogInfo [''no changes, no commit'']] \<or>
          trace s' = trace s @ [GitAdd ''.'' True, GitStatus True,
             LogInfo [''commit: '' @ (if type = CREATE then profileName @ '': create''
                                      else profileName @ '': update'')],
             GitCommit (if type = CREATE then profileName @ '': create''
                        else profileName @ '': update'') True])"
  using assms unfolding git_push_def git_add_def git_status_def git_commit_def Let_def
  by (auto dest!: io_bind_Inr git_call_result simp: log_info_def split: if_splits)


text \<open>
  C4. When staging and inspecting yields an empty staged set, \<open>push\<close> on the Git
  backend returns after the log line "no changes, no commit": it issues no commit
  request and leaves the repository as the inspection left it. On the model of the
  repository, a \<open>push\<close> that follows a \<open>push\<close> which returned, with the disk as that one
  left it, stages and inspects, logs the same line and changes nothing: no new commit.
\<close>

theorem push_without_changes_commits_nothing:
  "(io_bind (git_add ''.'') (\<lambda>_. git_status) s = (Inr st, s1) \<and> staged st = [] \<longrightarrow>
      git_push type profileName s =
        (Inr (), s1\<lparr>trace := trace s1 @ [LogInfo [''no changes, no commit'']]\<rparr>)) \<and>
   (git t = local_git snapshot \<and> git_push type1 profile1 t = (Inr (), t1) \<longrightarrow>
      git_push type2 profile2 t1 =
        (Inr (), t1\<lparr>trace := trace t1 @
           [GitAdd ''.'' True, GitStatus True, LogInfo [''no changes, no commit'']]\<rparr>))"
proof (intro conjI impI)
  assume a: "io_bind (git_add ''.'') (\<lambda>_. git_status) s = (Inr st, s1) \<and> staged st = []"
  then obtain s0 where "git_add ''.'' s = (Inr (), s0)" "git_status s0 = (Inr st, s1)"
    using stage_and_inspect_result by blast
  with a show "git_push type profileName s =
        (Inr (), s1\<lparr>trace := trace s1 @ [LogInfo [''no changes, no commit'']]\<rparr>)"
    by (simp add: git_push_def io_bind_def log_info_def)
next
  assume a: "git t = local_git snapshot \<and> git_push type1 profile1 t = (Inr (), t1)"
  then have g: "git t = local_git snapshot" and run: "git_push type1 profile1 t = (Inr (), t1)"
    by simp_all
  have same: "changed idx idx = []" for idx by (simp add: changed_def)
  from run g obtain w where
    t1: "git t1 = local_git snapshot" "is_repo (repository t1)" "workdir (repository t1) = Some w"
      "index (repository t1) = snapshot w (disk t1)"
      "changed (index (repository t1)) (head (repository t1)) = []"
    apply (simp add: git_push_def io_bind_def git_add_def git_status_def git_commit_def git_call_def
        log_info_def local_git_def Let_def split: option.splits if_splits prod.splits sum.splits)
    apply (auto simp: same)
    done
  then show "git_push type2 profile2 t1 =
        (Inr (), t1\<lparr>trace := trace t1 @
           [GitAdd ''.'' True, GitStatus True, LogInfo [''no changes, no commit'']]\<rparr>)"
    by (simp add: git_push_def io_bind_def git_add_def git_status_def git_call_def
        log_info_def local_git_def)
qed


theorem push_without_changes_commits_nothing_witness:
  "io_bind (git_add ''.'') (\<lambda>_. git_status) example_pushed =
     (Inr \<lparr>staged = []\<rparr>, snd (io_bind (git_add ''.'') (\<lambda>_. git_status) example_pushed)) \<and>
   git_push UPLOAD ''work'' example_pushed =
     (Inr (), (snd (io_bind (git_add ''.'') (\<lambda>_. git_status) example_pushed))
        \<lparr>trace := trace (snd (io_bind (git_add ''.'') (\<lambda>_. git_status) example_pushed)) @
           [LogInfo [''no changes, no commit'']]\<rparr>) \<and>
   git example_git_repo = local_git example_snapshot \<and>
   git_push CREATE ''work'' example_git_repo = (Inr (), example_pushed) \<and>
   commits (repository example_pushed) = [''work: create''] \<and>
   git_push UPLOAD ''work'' example_pushed =
     (Inr (), example_pushed\<lparr>trace := trace example_pushed @
        [GitAdd ''.'' True, GitStatus True, LogInfo [''no changes, no commit'']]\<rparr>)"
proof -
  have a: "fst (io_bind (git_add ''.'') (\<lambda>_. git_status) example_pushed) = Inr \<lparr>staged = []\<rparr>"
    by code_simp
  then have b: "io_bind (git_add ''.'') (\<lambda>_. git_status) example_pushed =
     (Inr \<lparr>staged = []\<rparr>, snd (io_bind (git_add ''.'') (\<lambda>_. git_status) example_pushed))"
    by (simp add: prod_eq_iff)
  have c: "git example_git_repo = local_git example_snapshot"
    by (simp add: example_git_repo_def)
  have "fst (git_push CREATE ''work'' example_git_repo) = Inr ()"
    by code_simp
  then have d: "git_push CREATE ''work'' example_git_repo = (Inr (), example_pushed)"
    by (simp add: prod_eq_iff example_pushed_def)
  have e: "commits (repository example_pushed) = [''work: create'']"
    by code_simp
  have f: "staged \<lparr>staged = []\<rparr> = []"
    by simp
  from push_without_changes_commits_nothing[where s = example_pushed and st = "\<lparr>staged = []\<rparr>"
      and ?s1.0 = "snd (io_bind (git_add ''.'') (\<lambda>_. git_status) example_pushed)"
      and type = UPLOAD and profileName = "''work''"
      and t = example_git_repo and snapshot = example_snapshot and ?type1.0 = CREATE
      and ?profile1.0 = "''work''" and ?t1.0 = example_pushed and ?type2.0 = UPLOAD
      and ?profile2.0 = "''work''"] b c d e f
  show ?thesis by blast
qed

text \<open>
  C5. When staging and inspecting yields a staged set that is not empty, \<open>push\<close> on the
  Git backend asks for one commit, whose message is the profile name followed by
  ": create" for \<open>CREATE\<close> and by ": update" for \<open>UPLOAD\<close>; nothing else enters the
  message.
\<close>

theorem commit_message_from_intent_and_profile:
  "(io_bind (git_add ''.'') (\<lambda>_. git_status) s = (Inr st, s1) \<and> staged st \<noteq> [] \<longrightarrow>
      (\<exists>r s'. git_push CREATE profileName s = (r, s') \<and>
         commit (git s1) (profileName @ '': create'') (disk s1) (repository s1) = (r, repository s') \<and>
         trace s' = trace s1 @ [LogInfo [''commit: '' @ profileName @ '': create''],
                                GitCommit (profileName @ '': create'') (\<not> isl r)])) \<and>
   (io_bind (git_add ''.'') (\<lambda>_. git_status) s = (Inr st, s1) \<and> staged st \<noteq> [] \<longrightarrow>
      (\<exists>r s'. git_push UPLOAD profileName s = (r, s') \<and>
         commit (git s1) (profileName @ '': update'') (disk s1) (repository s1) = (r, repository s') \<and>
         trace s' = trace s1 @ [LogInfo [''commit: '' @ profileName @ '': update''],
                                GitCommit (profileName @ '': update'') (\<not> isl r)]))"
proof (intro conjI impI)
  assume a: "io_bind (git_add ''.'') (\<lambda>_. git_status) s = (Inr st, s1) \<and> staged st \<noteq> []"
  then obtain s0 where "git_add ''.'' s = (Inr (), s0)" "git_status s0 = (Inr st, s1)"
    using stage_and_inspect_result by blast
  with a show "\<exists>r s'. git_push CREATE profileName s = (r, s') \<and>
         commit (git s1) (profileName @ '': create'') (disk s1) (repository s1) = (r, repository s') \<and>
         trace s' = trace s1 @ [LogInfo [''commit: '' @ profileName @ '': create''],
                                GitCommit (profileName @ '': create'') (\<not> isl r)]"
    by (auto simp: git_push_def io_bind_def log_info_def git_commit_def git_call_def Let_def
        split: prod.splits)
next
  assume a: "io_bind (git_add ''.'') (\<lambda>_. git_status) s = (Inr st, s1) \<and> staged st \<noteq> []"
  then obtain s0 where "git_add ''.'' s = (Inr (), s0)" "git_status s0 = (Inr st, s1)"
    using stage_and_inspect_result by blast
  with a show "\<exists>r s'. git_push UPLOAD profileName s = (r, s') \<and>
         commit (git s1) (profileName @ '': update'') (disk s1) (repository s1) = (r, repository s') \<and>
         trace s' = trace s1 @ [LogInfo [''commit: '' @ profileName @ '': update''],
                                GitCommit (profileName @ '': update'') (\<not> isl r)]"
    by (auto simp: git_push_def io_bind_def log_info_def git_commit_def git_call_def Let_def
        split: prod.splits)
qed

theorem commit_message_from_intent_and_profile_witness:
  "io_bind (git_add ''.'') (\<lambda>_. git_status) example_git_repo =
     (Inr \<lparr>staged = [''profiles/work/.gitkeep'']\<rparr>,
      snd (io_bind (git_add ''.'') (\<lambda>_. git_status) example_git_repo)) \<and>
   staged \<lparr>staged = [''profiles/work/.gitkeep'']\<rparr> \<noteq> [] \<and>
   (\<exists>r s'. git_push CREATE ''work'' example_git_repo = (r, s') \<and>
      trace s' = trace (snd (io_bind (git_add ''.'') (\<lambda>_. git_status) example_git_repo)) @
        [LogInfo [''commit: work: create''], GitCommit ''work: create'' (\<not> isl r)]) \<and>
   (\<exists>r s'. git_push UPLOAD ''work'' example_git_repo = (r, s') \<and>
      trace s' = trace (snd (io_bind (git_add ''.'') (\<lambda>_. git_status) example_git_repo)) @
        [LogInfo [''commit: work: update''], GitCommit ''work: update'' (\<not> isl r)])"
proof -
  have "fst (io_bind (git_add ''.'') (\<lambda>_. git_status) example_git_repo) =
      Inr \<lparr>staged = [''profiles/work/.gitkeep'']\<rparr>"
    by code_simp
  then have b: "io_bind (git_add ''.'') (\<lambda>_. git_status) example_git_repo =
     (Inr \<lparr>staged = [''profiles/work/.gitkeep'']\<rparr>,
      snd (io_bind (git_add ''.'') (\<lambda>_. git_status) example_git_repo))"
    by (simp add: prod_eq_iff)
  from commit_message_from_intent_and_profile[where s = example_git_repo
      and st = "\<lparr>staged = [''profiles/work/.gitkeep'']\<rparr>"
      and ?s1.0 = "snd (io_bind (git_add ''.'') (\<lambda>_. git_status) example_git_repo)"
      and profileName = "''work''"] b
  show ?thesis by simp blast
qed

text \<open>
  C7. When \<open>duplicateProfileTo\<close> returns, the directory of the new profile holds an entry
  \<open>.gitkeep\<close>. After the base class's copy the method asks once whether the marker
  exists; it creates the directory and writes the empty marker exactly when the answer
  is no. Then it stages and inspects once and commits at most once, with the message of
  \<open>CREATE\<close> for the new profile's name: one \<open>push\<close>.
\<close>

theorem duplicateProfileTo_keeps_placeholder_and_pushes_once:
  "duplicateProfileTo base originalProfile newProfile s = (Inr (), s') \<longrightarrow>
     (let profilePath = path_join (rootPath s') [''profiles'', newProfile];
          gitkeepPath = path_join profilePath [''.gitkeep''] in
      node_at (disk s') gitkeepPath \<noteq> None \<and>
      (\<exists>found pushed.
         trace s' = trace s @ [Call ''super.duplicateProfileTo'', FsExists gitkeepPath found] @
           (if found then []
            else [FsMkdirRecursive profilePath True, FsWriteFile gitkeepPath [] True]) @
           [GitAdd ''.'' True, GitStatus True] @ pushed \<and>
         (pushed = [LogInfo [''no changes, no commit'']] \<or>
          pushed = [LogInfo [''commit: '' @ newProfile @ '': create''],
                    GitCommit (newProfile @ '': create'') True]) \<and>
         (\<not> found \<longrightarrow> disk s' gitkeepPath = Some (LFile []))))"
proof
  assume run: "duplicateProfileTo base originalProfile newProfile s = (Inr (), s')"
  define pp where "pp s1 = path_join (rootPath s1) [''profiles'', newProfile]" for s1 :: "'a git_repo"
  define gk where "gk s1 = path_join (pp s1) [''.gitkeep'']" for s1 :: "'a git_repo"
  from run obtain s1 where
    sup: "collaborator ''super.duplicateProfileTo''
            (super_duplicateProfileTo base originalProfile newProfile) s = (Inr (), s1)" and
    rest: "io_bind (exists_util (gk s1)) (\<lambda>found.
        io_bind (if \<not> found then
                   io_bind (fs_mkdir_recursive (pp s1)) (\<lambda>_. fs_writeFile (gk s1) [])
                 else io_return ()) (\<lambda>_.
          git_push CREATE newProfile)) s1 = (Inr (), s')"
  proof -
    have "\<exists>u s1. collaborator ''super.duplicateProfileTo''
            (super_duplicateProfileTo base originalProfile newProfile) s = (Inr u, s1) \<and>
      io_bind (exists_util (gk s1)) (\<lambda>found.
        io_bind (if \<not> found then
                   io_bind (fs_mkdir_recursive (pp s1)) (\<lambda>_. fs_writeFile (gk s1) [])
                 else io_return ()) (\<lambda>_.
          git_push CREATE newProfile)) s1 = (Inr (), s')"
      using io_bind_Inr[OF run[unfolded duplicateProfileTo_def]]
      unfolding gk_def pp_def Let_def by simp
    then obtain u s1 where
      "collaborator ''super.duplicateProfileTo''
            (super_duplicateProfileTo base originalProfile newProfile) s = (Inr u, s1)"
      "io_bind (exists_util (gk s1)) (\<lambda>found.
        io_bind (if \<not> found then
                   io_bind (fs_mkdir_recursive (pp s1)) (\<lambda>_. fs_writeFile (gk s1) [])
                 else io_return ()) (\<lambda>_.
          git_push CREATE newProfile)) s1 = (Inr (), s')"
      by (elim exE conjE)
    with that show ?thesis by simp
  qed
  from sup have t1: "trace s1 = trace s @ [Call ''super.duplicateProfileTo'']"
    by (auto simp: collaborator_def split: prod.splits)
  define found where "found = (node_at (disk s1) (gk s1) \<noteq> None)"
  define s2 where "s2 = s1\<lparr>trace := trace s1 @ [FsExists (gk s1) found]\<rparr>"
  from rest obtain s3 where
    mk: "(if \<not> found then
            io_bind (fs_mkdir_recursive (pp s1)) (\<lambda>_. fs_writeFile (gk s1) [])
          else io_return ()) s2 = (Inr (), s3)" and
    push: "git_push CREATE newProfile s3 = (Inr (), s')"
  proof -
    from io_bind_Inr[OF rest] obtain b s2' where
      e: "exists_util (gk s1) s1 = (Inr b, s2')" and
      r2: "io_bind (if \<not> b then
                   io_bind (fs_mkdir_recursive (pp s1)) (\<lambda>_. fs_writeFile (gk s1) [])
                 else io_return ()) (\<lambda>_. git_push CREATE newProfile) s2' = (Inr (), s')"
      by blast
    from e have "b = found" "s2' = s2" by (auto simp: exists_util_def found_def s2_def)
    with r2 have r2': "io_bind (if \<not> found then
                   io_bind (fs_mkdir_recursive (pp s1)) (\<lambda>_. fs_writeFile (gk s1) [])
                 else io_return ()) (\<lambda>_. git_push CREATE newProfile) s2 = (Inr (), s')"
      by simp
    from io_bind_Inr[OF r2'] obtain u s3 where
      "(if \<not> found then
            io_bind (fs_mkdir_recursive (pp s1)) (\<lambda>_. fs_writeFile (gk s1) [])
          else io_return ()) s2 = (Inr u, s3)"
      "git_push CREATE newProfile s3 = (Inr (), s')"
      by (elim exE conjE)
    with that show ?thesis by simp
  qed
  have gk_ne: "gk s1 \<noteq> []" by (simp add: gk_def path_join_def)
  have s3: "rootPath s3 = rootPath s1 \<and>
      trace s3 = trace s2 @ (if found then []
         else [FsMkdirRecursive (pp s1) True, FsWriteFile (gk s1) [] True]) \<and>
      node_at (disk s3) (gk s1) \<noteq> None \<and> (\<not> found \<longrightarrow> disk s3 (gk s1) = Some (LFile []))"
  proof (cases found)
    case True
    with mk have "s3 = s2" by (simp add: io_return_def)
    with True show ?thesis by (simp add: s2_def found_def)
  next
    case False
    with mk have "io_bind (fs_mkdir_recursive (pp s1)) (\<lambda>_. fs_writeFile (gk s1) []) s2 = (Inr (), s3)"
      by simp
    from io_bind_Inr[OF this] obtain u s25 where "fs_mkdir_recursive (pp s1) s2 = (Inr u, s25)"
      and "fs_writeFile (gk s1) [] s25 = (Inr (), s3)"
      by (elim exE conjE)
    then have a: "fs_mkdir_recursive (pp s1) s2 = (Inr (), s25)"
      and b: "fs_writeFile (gk s1) [] s25 = (Inr (), s3)"
      by simp_all
    from a have a': "rootPath s25 = rootPath s1 \<and> trace s25 = trace s2 @ [FsMkdirRecursive (pp s1) True]"
      unfolding fs_mkdir_recursive_def by (auto dest!: disk_call_result simp: s2_def)
    from b have b': "rootPath s3 = rootPath s25 \<and> trace s3 = trace s25 @ [FsWriteFile (gk s1) [] True] \<and>
        disk s3 (gk s1) = Some (LFile [])"
      unfolding fs_writeFile_def
      by (auto dest!: disk_call_result simp: write_file_def split: option.splits lnode.splits)
    with a' False gk_ne show ?thesis by (simp add: node_at_def)
  qed
  from git_push_returns[OF push] have p: "disk s' = disk s3" "rootPath s' = rootPath s3"
    "trace s' = trace s3 @ [GitAdd ''.'' True, GitStatus True, LogInfo [''no changes, no commit'']] \<or>
     trace s' = trace s3 @ [GitAdd ''.'' True, GitStatus True,
        LogInfo [''commit: '' @ newProfile @ '': create''],
        GitCommit (newProfile @ '': create'') True]"
    by simp_all
  have paths: "path_join (rootPath s') [''profiles'', newProfile] = pp s1"
    "path_join (pp s1) [''.gitkeep''] = gk s1"
    using p(2) s3 by (simp_all add: pp_def gk_def)
  have tr: "trace s2 = trace s @ [Call ''super.duplicateProfileTo'', FsExists (gk s1) found]"
    using t1 by (simp add: s2_def)
  have "\<exists>pushed.
         trace s' = trace s @ [Call ''super.duplicateProfileTo'', FsExists (gk s1) found] @
           (if found then []
            else [FsMkdirRecursive (pp s1) True, FsWriteFile (gk s1) [] True]) @
           [GitAdd ''.'' True, GitStatus True] @ pushed \<and>
         (pushed = [LogInfo [''no changes, no commit'']] \<or>
          pushed = [LogInfo [''commit: '' @ newProfile @ '': create''],
                    GitCommit (newProfile @ '': create'') True])"
    using p(3)
  proof
    assume "trace s' = trace s3 @ [GitAdd ''.'' True, GitStatus True, LogInfo [''no changes, no commit'']]"
    with s3 tr show ?thesis by (intro exI[of _ "[LogInfo [''no changes, no commit'']]"]) simp
  next
    assume "trace s' = trace s3 @ [GitAdd ''.'' True, GitStatus True,
        LogInfo [''commit: '' @ newProfile @ '': create''],
        GitCommit (newProfile @ '': create'') True]"
    with s3 tr show ?thesis
      by (intro exI[of _ "[LogInfo [''commit: '' @ newProfile @ '': create''],
                    GitCommit (newProfile @ '': create'') True]"]) simp
  qed
  then obtain pushed where pushed:
    "trace s' = trace s @ [Call ''super.duplicateProfileTo'', FsExists (gk s1) found] @
           (if found then []
            else [FsMkdirRecursive (pp s1) True, FsWriteFile (gk s1) [] True]) @
           [GitAdd ''.'' True, GitStatus True] @ pushed"
    "pushed = [LogInfo [''no changes, no commit'']] \<or>
          pushed = [LogInfo [''commit: '' @ newProfile @ '': create''],
                    GitCommit (newProfile @ '': create'') True]"
    by blast
  have there: "node_at (disk s') (gk s1) \<noteq> None" using s3 p(1) by simp
  have fresh: "\<not> found \<longrightarrow> disk s' (gk s1) = Some (LFile [])" using s3 p(1) by simp
  show "let profilePath = path_join (rootPath s') [''profiles'', newProfile];
          gitkeepPath = path_join profilePath [''.gitkeep''] in
      node_at (disk s') gitkeepPath \<noteq> None \<and>
      (\<exists>found pushed.
         trace s' = trace s @ [Call ''super.duplicateProfileTo'', FsExists gitkeepPath found] @
           (if found then []
            else [FsMkdirRecursive profilePath True, FsWriteFile gitkeepPath [] True]) @
           [GitAdd ''.'' True, GitStatus True] @ pushed \<and>
         (pushed = [LogInfo [''no changes, no commit'']] \<or>
          pushed = [LogInfo [''commit: '' @ newProfile @ '': create''],
                    GitCommit (newProfile @ '': create'') True]) \<and>
         (\<not> found \<longrightarrow> disk s' gitkeepPath = Some (LFile [])))"
    unfolding Let_def paths
  proof (intro conjI exI[of _ found] exI[of _ pushed])
    show "node_at (disk s') (gk s1) \<noteq> None" by (rule there)
    show "trace s' = trace s @ [Call ''super.duplicateProfileTo'', FsExists (gk s1) found] @
           (if found then []
            else [FsMkdirRecursive (pp s1) True, FsWriteFile (gk s1) [] True]) @
           [GitAdd ''.'' True, GitStatus True] @ pushed" by (rule pushed(1))
    show "pushed = [LogInfo [''no changes, no commit'']] \<or>
          pushed = [LogInfo [''commit: '' @ newProfile @ '': create''],
                    GitCommit (newProfile @ '': create'') True]" by (rule pushed(2))
    show "\<not> found \<longrightarrow> disk s' (gk s1) = Some (LFile [])" by (rule fresh)
  qed
qed

theorem duplicateProfileTo_keeps_placeholder_and_pushes_once_witness:
  "duplicateProfileTo example_base ''work'' ''copy'' example_git_repo =
     (Inr (), snd (duplicateProfileTo example_base ''work'' ''copy'' example_git_repo)) \<and>
   (let s' = snd (duplicateProfileTo example_base ''work'' ''copy'' example_git_repo);
        profilePath = path_join (rootPath s') [''profiles'', ''copy''];
        gitkeepPath = path_join profilePath [''.gitkeep''] in
      node_at (disk s') gitkeepPath \<noteq> None \<and>
      (\<exists>found pushed.
         trace s' = trace example_git_repo @
           [Call ''super.duplicateProfileTo'', FsExists gitkeepPath found] @
           (if found then []
            else [FsMkdirRecursive profilePath True, FsWriteFile gitkeepPath [] True]) @
           [GitAdd ''.'' True, GitStatus True] @ pushed \<and>
         (pushed = [LogInfo [''no changes, no commit'']] \<or>
          pushed = [LogInfo [''commit: '' @ ''copy'' @ '': create''],
                    GitCommit (''copy'' @ '': create'') True]) \<and>
         (\<not> found \<longrightarrow> disk s' gitkeepPath = Some (LFile []))))"
proof -
  have "fst (duplicateProfileTo example_base ''work'' ''copy'' example_git_repo) = Inr ()"
    by code_simp
  then have a: "duplicateProfileTo example_base ''work'' ''copy'' example_git_repo =
     (Inr (), snd (duplicateProfileTo example_base ''work'' ''copy'' example_git_repo))"
    by (simp add: prod_eq_iff)
  from duplicateProfileTo_keeps_placeholder_and_pushes_once[where base = example_base
      and originalProfile = "''work''" and newProfile = "''copy''" and s = example_git_repo
      and s' = "snd (duplicateProfileTo example_base ''work'' ''copy'' example_git_repo)"] a
  show ?thesis unfolding Let_def by blast
qed

text \<open>
  C8. Every normal return of \<open>pull\<close> on the Git backend carries \<open>true\<close>. So
  \<open>initialize\<close> never logs an error line, "can not pull git repository" included, and
  every normal return of \<open>initialize\<close> has set the initialized flag.
\<close>

theorem git_pull_never_returns_false:
  "(git_pull s = (Inr pulled, s') \<longrightarrow> pulled) \<and>
   (git_initialize t = (r, t') \<longrightarrow>
      (\<exists>evs. trace t' = trace t @ evs \<and> (\<forall>args. LogError args \<notin> set evs))) \<and>
   (git_initialize t = (Inr (), t') \<longrightarrow> initialized t')"
proof (intro conjI impI)
  show "pulled" if "git_pull s = (Inr pulled, s')" using that by (rule git_pull_true)
next
  assume run: "git_initialize t = (r, t')"
  have "logs_no_error t t'"
    using run unfolding git_initialize_def
  proof (cases rule: io_bind_cases)
    case (rejected e)
    then show ?thesis by (auto intro: logs_no_error_git_pull)
  next
    case (resolved pulled s1)
    from git_pull_true[OF resolved(1)] have pulled by simp
    with resolved(2) have "logs_no_error s1 t'"
      unfolding Let_def fs_mkdir_recursive_def fs_writeFile_def
      apply simp
      apply (elim logs_no_error_bind)
        apply (auto intro: logs_no_error_exists_util logs_no_error_disk_call logs_no_error_git_push
          logs_no_error_refl logs_no_error_one logs_no_error_initialized elim!: logs_no_error_bind
          simp: io_return_def split: if_splits)
      done
    with logs_no_error_git_pull[OF resolved(1)] show ?thesis by (rule logs_no_error_trans)
  qed
  then show "\<exists>evs. trace t' = trace t @ evs \<and> (\<forall>args. LogError args \<notin> set evs)"
    by (simp add: logs_no_error_def)
next
  assume run: "git_initialize t = (Inr (), t')"
  then obtain pulled s1 where p: "git_pull t = (Inr pulled, s1)"
    and rest: "(if \<not> pulled then log_error [''can not pull git repository'']
       else (\<lambda>s.
         (let profilePath = path_join (rootPath s) [''profiles'', profile s];
              gitkeepPath = path_join profilePath [''.gitkeep''] in
          io_bind (exists_util gitkeepPath) (\<lambda>found.
          io_bind (if \<not> found then
                     io_bind (fs_mkdir_recursive profilePath) (\<lambda>_.
                     io_bind (fs_writeFile gitkeepPath []) (\<lambda>_.
                       (\<lambda>s. git_push CREATE (profile s) s)))
                   else io_return ()) (\<lambda>_.
            (\<lambda>s. (Inr (), s\<lparr>initialized := True\<rparr>))))) s)) s1 = (Inr (), t')"
    unfolding git_initialize_def by (blast dest: io_bind_Inr)
  from git_pull_true[OF p] rest show "initialized t'"
    by (auto simp: Let_def dest!: io_bind_Inr)
qed




theorem git_pull_never_returns_false_witness:
  "git_pull example_git_repo = (Inr True, snd (git_pull example_git_repo)) \<and>
   git_initialize example_git_repo = (Inr (), snd (git_initialize example_git_repo)) \<and>
   (\<exists>evs. trace (snd (git_initialize example_git_repo)) = trace example_git_repo @ evs \<and>
      (\<forall>args. LogError args \<notin> set evs)) \<and>
   initialized (snd (git_initialize example_git_repo))"
proof -
  have "fst (git_pull example_git_repo) = Inr True"
    by code_simp
  then have a: "git_pull example_git_repo = (Inr True, snd (git_pull example_git_repo))"
    by (simp add: prod_eq_iff)
  have "fst (git_initialize example_git_repo) = Inr ()"
    by code_simp
  then have b: "git_initialize example_git_repo = (Inr (), snd (git_initialize example_git_repo))"
    by (simp add: prod_eq_iff)
  from git_pull_never_returns_false[where s = example_git_repo and pulled = True
      and s' = "snd (git_pull example_git_repo)" and t = example_git_repo and r = "Inr ()"
      and t' = "snd (git_initialize example_git_repo)"] a b
  show ?thesis by blast
qed

section \<open>Proofs: the health check of the WebDAV backend\<close>

text \<open>
  C6. When the \<open>stat\<close> of the root is rejected during \<open>initialize\<close> of the WebDAV
  backend, \<open>initialize\<close> returns normally after one error line and nothing else: the
  base class's \<open>initialize\<close> is not called and the initialized flag is as it was. The
  line is the refused message for code \<open>ECONNREFUSED\<close>, else the unauthorized message
  for status 401, else the not-found message for status 404, else \<open>String(error)\<close>;
  the three fixed messages differ from each other for every url.
\<close>

theorem health_check_failure_is_logged_not_thrown:
  \<open>(collaborator ''TemporaryRepository.initialize'' temporary_initialize s = (Inr (), s1) \<and>
    stat (createAdapter (url s1)) [] (server s1) = (Inl error, srv) \<longrightarrow>
      (\<exists>message s'.
         webdav_initialize base temporary_initialize createAdapter s = (Inr (), s') \<and>
         trace s' = trace s1 @ [Stat [] False, LogError [message]] \<and>
         initialized s' = initialized s1 \<and>
         (err_code error = Some ''ECONNREFUSED'' \<longrightarrow>
            message = ''The connection to "'' @ url s1 @ ''" is refused.'') \<and>
         (err_code error \<noteq> Some ''ECONNREFUSED'' \<and> err_status error = Some 401 \<longrightarrow>
            message = ''The connection to "'' @ url s1 @ ''" isn't authorized.'') \<and>
         (err_code error \<noteq> Some ''ECONNREFUSED'' \<and> err_status error \<noteq> Some 401 \<and>
          err_status error = Some 404 \<longrightarrow>
            message = ''The url "'' @ url s1 @ ''" can't be found.'') \<and>
         (err_code error \<noteq> Some ''ECONNREFUSED'' \<and> err_status error \<noteq> Some 401 \<and>
          err_status error \<noteq> Some 404 \<longrightarrow>
            message = err_string error))) \<and>
   ''The connection to "'' @ u @ ''" is refused.'' \<noteq> ''The connection to "'' @ u @ ''" isn't authorized.'' \<and>
   ''The connection to "'' @ u @ ''" is refused.'' \<noteq> ''The url "'' @ u @ ''" can't be found.'' \<and>
   ''The connection to "'' @ u @ ''" isn't authorized.'' \<noteq> ''The url "'' @ u @ ''" can't be found.''\<close>
proof (intro conjI impI)
  assume a: "collaborator ''TemporaryRepository.initialize'' temporary_initialize s = (Inr (), s1) \<and>
    stat (createAdapter (url s1)) [] (server s1) = (Inl error, srv)"
  then show \<open>\<exists>message s'.
         webdav_initialize base temporary_initialize createAdapter s = (Inr (), s') \<and>
         trace s' = trace s1 @ [Stat [] False, LogError [message]] \<and>
         initialized s' = initialized s1 \<and>
         (err_code error = Some ''ECONNREFUSED'' \<longrightarrow>
            message = ''The connection to "'' @ url s1 @ ''" is refused.'') \<and>
         (err_code error \<noteq> Some ''ECONNREFUSED'' \<and> err_status error = Some 401 \<longrightarrow>
            message = ''The connection to "'' @ url s1 @ ''" isn't authorized.'') \<and>
         (err_code error \<noteq> Some ''ECONNREFUSED'' \<and> err_status error \<noteq> Some 401 \<and>
          err_status error = Some 404 \<longrightarrow>
            message = ''The url "'' @ url s1 @ ''" can't be found.'') \<and>
         (err_code error \<noteq> Some ''ECONNREFUSED'' \<and> err_status error \<noteq> Some 401 \<and>
          err_status error \<noteq> Some 404 \<longrightarrow>
            message = err_string error)\<close>
    by (auto simp: webdav_initialize_def io_bind_def dav_stat_def dav_call_def log_error_def)
qed simp_all


theorem health_check_failure_is_logged_not_thrown_witness:
  \<open>collaborator ''TemporaryRepository.initialize'' (io_return ()) example_repo =
     (Inr (), example_connecting) \<and>
   stat (refusing_adapter (url example_connecting)) [] (server example_connecting) =
     (Inl refused_error, server example_connecting) \<and>
   (\<exists>s'. webdav_initialize example_base (io_return ()) refusing_adapter example_repo = (Inr (), s') \<and>
      trace s' = trace example_connecting @
        [Stat [] False, LogError [''The connection to "http://dav" is refused.'']] \<and>
      initialized s' = initialized example_connecting) \<and>
   ''The connection to "http://dav" is refused.'' \<noteq> ''The connection to "http://dav" isn't authorized.'' \<and>
   ''The connection to "http://dav" is refused.'' \<noteq> ''The url "http://dav" can't be found.'' \<and>
   ''The connection to "http://dav" isn't authorized.'' \<noteq> ''The url "http://dav" can't be found.''\<close>
proof -
  have a: "collaborator ''TemporaryRepository.initialize'' (io_return ()) example_repo =
     (Inr (), example_connecting)"
    by (simp add: collaborator_def io_return_def example_connecting_def)
  have b: "stat (refusing_adapter (url example_connecting)) [] (server example_connecting) =
     (Inl refused_error, server example_connecting)"
    by (simp add: refusing_adapter_def)
  have c: "err_code refused_error = Some ''ECONNREFUSED''"
    by (simp add: refused_error_def)
  have d: "url example_connecting = ''http://dav''"
    by (simp add: example_connecting_def example_repo_def)
  from health_check_failure_is_logged_not_thrown[where temporary_initialize = "io_return ()"
      and s = example_repo and ?s1.0 = example_connecting and createAdapter = refusing_adapter
      and error = refused_error and srv = "server example_connecting" and base = example_base
      and u = "''http://dav''"] a b c d
  show ?thesis by auto
qed

end
